theory Spec2Isabelle
  imports Complex_Main
begin

section \<open>Response cache (src/integrations/figma.ts, setCache and getCache)\<close>

text \<open>
  \<^verbatim>\<open>interface CacheEntry<T> { data: T; timestamp: number; ttl: number; }\<close>
  Timestamps are the values of \<^verbatim>\<open>Date.now()\<close>, integer milliseconds; the clock is
  an explicit argument of every operation.
\<close>

record 'a CacheEntry =
  data :: 'a
  timestamp :: int
  ttl :: int

type_synonym 'a cache = "string \<rightharpoonup> 'a CacheEntry"

definition setCache :: "int \<Rightarrow> string \<Rightarrow> 'a \<Rightarrow> int \<Rightarrow> 'a cache \<Rightarrow> 'a cache" where
  "setCache now key d t c = c(key \<mapsto> \<lparr>data = d, timestamp = now, ttl = t\<rparr>)"

text \<open>
  \<^verbatim>\<open>getCache\<close> returns the value (\<open>None\<close> is the source's \<^verbatim>\<open>null\<close>) and the cache,
  from which an expired entry has been deleted.
\<close>

definition getCache :: "int \<Rightarrow> string \<Rightarrow> 'a cache \<Rightarrow> 'a option \<times> 'a cache" where
  "getCache now key c =
     (case c key of
        None \<Rightarrow> (None, c)
      | Some entry \<Rightarrow>
          if now - timestamp entry > ttl entry then (None, c(key := None))
          else (Some (data entry), c))"

text \<open>Other traffic on the cache: each operation with the clock value it runs at.\<close>

datatype 'a cache_op = CSet string 'a int | CGet string

fun op_key :: "'a cache_op \<Rightarrow> string" where
  "op_key (CSet k _ _) = k"
| "op_key (CGet k) = k"

fun cache_step :: "int \<times> 'a cache_op \<Rightarrow> 'a cache \<Rightarrow> 'a cache" where
  "cache_step (now, CSet k d t) c = setCache now k d t c"
| "cache_step (now, CGet k) c = snd (getCache now k c)"

fun cache_run :: "(int \<times> 'a cache_op) list \<Rightarrow> 'a cache \<Rightarrow> 'a cache" where
  "cache_run [] c = c"
| "cache_run (x # xs) c = cache_run xs (cache_step x c)"

definition others :: "string \<Rightarrow> (int \<times> 'a cache_op) list \<Rightarrow> bool" where
  "others k ops = list_all (\<lambda>x. op_key (snd x) \<noteq> k) ops"

section \<open>JavaScript numbers\<close>

text \<open>
  A JavaScript number is an IEEE 754 double: a finite value, which is a real number that
  the format represents, an infinity, or \<^verbatim>\<open>NaN\<close>. Every arithmetic operation
  returns the exact result rounded to the nearest double.
\<close>

datatype number = Fin real | PosInf | NegInf | NaN

text \<open>
  Rounding to the nearest double, ties to the even significand: the exponent of the
  value (not below that of the subnormal numbers), the spacing of the doubles at that
  exponent (53 significant bits), and the nearest multiple of the spacing.
\<close>

definition pow2 :: "int \<Rightarrow> real" where
  "pow2 k = (if k \<ge> 0 then 2 ^ nat k else 1 / 2 ^ nat (- k))"

fun bit_length :: "nat \<Rightarrow> nat" where
  "bit_length n = (if n = 0 then 0 else Suc (bit_length (n div 2)))"

declare bit_length.simps [simp del]

definition exponent :: "real \<Rightarrow> int" where
  "exponent x =
     (if x \<ge> 1 then int (bit_length (nat \<lfloor>x\<rfloor>)) - 1
      else let m = int (bit_length (nat \<lfloor>1 / x\<rfloor>)) - 1
           in if pow2 m = 1 / x then - m else - m - 1)"

definition round_half_even :: "real \<Rightarrow> int" where
  "round_half_even x =
     (let f = \<lfloor>x\<rfloor>; r = x - of_int f
      in if r < 1 / 2 then f else if r > 1 / 2 then f + 1 else if even f then f else f + 1)"

definition round_double :: "real \<Rightarrow> real" where
  "round_double x =
     (if x = 0 then 0
      else let e = max (exponent \<bar>x\<bar>) (- 1022); q = pow2 (e - 52)
           in of_int (round_half_even (x / q)) * q)"

text \<open>The result of an operation: rounded, and infinite when the rounded value is out of range.\<close>

definition rounded :: "real \<Rightarrow> number" where
  "rounded x =
     (let y = round_double x
      in if y \<ge> 2 ^ 1024 then PosInf else if y \<le> - (2 ^ 1024) then NegInf else Fin y)"



text \<open>
  Multiplication, division, subtraction and \<^verbatim>\<open>>=\<close> on numbers. A zero is taken as
  positive: the divisors of this development are products of image dimensions.
\<close>

fun num_mul :: "number \<Rightarrow> number \<Rightarrow> number" where
  "num_mul (Fin a) (Fin b) = rounded (a * b)"
| "num_mul NaN _ = NaN"
| "num_mul _ NaN = NaN"
| "num_mul PosInf (Fin b) = (if b = 0 then NaN else if b > 0 then PosInf else NegInf)"
| "num_mul NegInf (Fin b) = (if b = 0 then NaN else if b > 0 then NegInf else PosInf)"
| "num_mul (Fin a) PosInf = (if a = 0 then NaN else if a > 0 then PosInf else NegInf)"
| "num_mul (Fin a) NegInf = (if a = 0 then NaN else if a > 0 then NegInf else PosInf)"
| "num_mul PosInf PosInf = PosInf"
| "num_mul PosInf NegInf = NegInf"
| "num_mul NegInf PosInf = NegInf"
| "num_mul NegInf NegInf = PosInf"

fun num_div :: "number \<Rightarrow> number \<Rightarrow> number" where
  "num_div (Fin a) (Fin b) =
     (if b = 0 then (if a = 0 then NaN else if a > 0 then PosInf else NegInf) else rounded (a / b))"
| "num_div NaN _ = NaN"
| "num_div _ NaN = NaN"
| "num_div (Fin a) PosInf = Fin 0"
| "num_div (Fin a) NegInf = Fin 0"
| "num_div PosInf (Fin b) = (if b \<ge> 0 then PosInf else NegInf)"
| "num_div NegInf (Fin b) = (if b \<ge> 0 then NegInf else PosInf)"
| "num_div PosInf PosInf = NaN"
| "num_div PosInf NegInf = NaN"
| "num_div NegInf PosInf = NaN"
| "num_div NegInf NegInf = NaN"

fun num_sub :: "number \<Rightarrow> number \<Rightarrow> number" where
  "num_sub (Fin a) (Fin b) = rounded (a - b)"
| "num_sub NaN _ = NaN"
| "num_sub _ NaN = NaN"
| "num_sub (Fin a) PosInf = NegInf"
| "num_sub (Fin a) NegInf = PosInf"
| "num_sub PosInf (Fin b) = PosInf"
| "num_sub NegInf (Fin b) = NegInf"
| "num_sub PosInf PosInf = NaN"
| "num_sub PosInf NegInf = PosInf"
| "num_sub NegInf PosInf = NegInf"
| "num_sub NegInf NegInf = NaN"

fun num_ge :: "number \<Rightarrow> number \<Rightarrow> bool" where
  "num_ge (Fin a) (Fin b) = (a \<ge> b)"
| "num_ge NaN _ = False"
| "num_ge _ NaN = False"
| "num_ge PosInf _ = True"
| "num_ge _ NegInf = True"
| "num_ge (Fin a) PosInf = False"
| "num_ge NegInf (Fin b) = False"
| "num_ge NegInf PosInf = False"

text \<open>A decoded image of pngjs: its dimensions and its pixel buffer.\<close>

record PNG =
  width :: nat
  height :: nat
  data :: "nat list"

section \<open>Result envelopes (types/index.ts)\<close>

text \<open>
  \<^verbatim>\<open>interface ToolResult { success: boolean; data?: any; error?: string; }\<close>
  An optional field is an \<open>option\<close>; \<open>None\<close> is \<^verbatim>\<open>undefined\<close>.
  A settled promise (the elements of \<^verbatim>\<open>Promise.allSettled\<close>) is fulfilled with a
  value or rejected with a reason, kept as the text its interpolation produces.
\<close>

record 'a ToolResult =
  success :: bool
  data :: "'a option"
  error :: "string option"

datatype 'a settled = Fulfilled 'a | Rejected string

definition failure :: "string \<Rightarrow> 'a ToolResult" where
  "failure msg = \<lparr>success = False, data = None, error = Some msg\<rparr>"

definition ok :: "'a \<Rightarrow> 'a ToolResult" where
  "ok d = \<lparr>success = True, data = Some d, error = None\<rparr>"

text \<open>
  A thrown value: an \<^verbatim>\<open>Error\<close> with its message, or anything else. Every catch block
  of the adapters and of the workflows reports
  \<^verbatim>\<open>error instanceof Error ? error.message : "Unknown error"\<close>.
\<close>

datatype thrown = Error string | NonError

fun caught :: "thrown \<Rightarrow> 'a ToolResult" where
  "caught (Error msg) = failure msg"
| "caught NonError = failure ''Unknown error''"

record ScreenshotComparison =
  baseImagePath :: string
  currentImagePath :: string
  diffImagePath :: string
  similarity :: number
  pixelDifference :: nat
  passed :: bool

record TestResult =
  name :: string
  passed :: bool
  error :: "string option"
  screenshots :: "ScreenshotComparison list option"
  duration :: int

record WorkflowContext =
  figmaFileId :: string
  frameId :: string
  componentName :: string
  outputPath :: string
  githubBranch :: string
  testResults :: "TestResult option list option"

section \<open>Workflow orchestrator (src/services/workflow.ts)\<close>



record GeneratedComponent =
  name :: string
  filePath :: string
  content :: string
  cssContent :: "string option"
  framework :: string
  dependencies :: "string list"

record SavedFile =
  relativePath :: string
  content :: string
  fullPath :: string

record CommitFile =
  path :: string
  content :: string

record CommitData =
  commitSha :: string
  message :: string





record ('t) DesignToCodeData =
  component :: GeneratedComponent
  designTokens :: "'t option"
  branch :: string
  commitSha :: string
  duration :: int


text \<open>
  \<^verbatim>\<open>executeDesignToCodeWorkflow\<close>, from the point where \<^verbatim>\<open>Promise.allSettled\<close> has
  delivered the three settled results. \<open>elapsed\<close> is \<^verbatim>\<open>Date.now() - startTime\<close>.
  Reading a property of an absent value throws a \<^verbatim>\<open>TypeError\<close>, which the workflow's
  own catch block turns into a failure: \<^verbatim>\<open>frame.name\<close> of an absent frame and
  \<^verbatim>\<open>commitResult.data.commitSha\<close> of absent commit data. Absent tokens are passed on.
  What a throwing file operation leaves behind stays in the effects.
\<close>

definition typeError :: "string \<Rightarrow> string \<Rightarrow> thrown" where
  "typeError what property =
     Error (''Cannot read properties of '' @ what @ '' (reading '' @ [CHR 0x27] @ property
            @ [CHR 0x27] @ '')'')"


text \<open>
  \<^verbatim>\<open>executeVisualTestingWorkflow\<close>, from the point where \<^verbatim>\<open>Promise.allSettled\<close> has
  delivered the four settled results. An entry of \<^verbatim>\<open>testResults\<close> is an \<open>option\<close>:
  the source pushes \<^verbatim>\<open>visualResult.value.data\<close> whatever it is.
\<close>

record AccessibilityData =
  passed :: bool
  issues :: "string list"

record ('r, 'i) VisualTestingData =
  visualTest :: "TestResult option"
  responsiveTest :: "'r option"
  accessibilityTest :: "AccessibilityData option"
  figmaImages :: "'i option"
  duration :: int

text \<open>\<^verbatim>\<open>issues.join(", ")\<close>\<close>

fun join_comma :: "string list \<Rightarrow> string" where
  "join_comma [] = []"
| "join_comma [x] = x"
| "join_comma (x # y # ys) = x @ '', '' @ join_comma (y # ys)"

definition responsiveEntry :: TestResult where
  "responsiveEntry =
     \<lparr>TestResult.name = ''responsive-design-test'', passed = True, error = None,
      screenshots = None, duration = 0\<rparr>"

definition accessibilityEntry :: "AccessibilityData \<Rightarrow> TestResult" where
  "accessibilityEntry d =
     \<lparr>TestResult.name = ''accessibility-test'', passed = AccessibilityData.passed d,
      error = (if length (issues d) > 0 then Some (join_comma (issues d)) else None),
      screenshots = None, duration = 0\<rparr>"

fun fulfilled_ok :: "'a ToolResult settled \<Rightarrow> bool" where
  "fulfilled_ok (Fulfilled v) = success v"
| "fulfilled_ok (Rejected _) = False"

fun settled_data :: "'a ToolResult settled \<Rightarrow> 'a option" where
  "settled_data (Fulfilled v) = data v"
| "settled_data (Rejected _) = None"

definition executeVisualTestingWorkflow ::
  "WorkflowContext \<Rightarrow> int
     \<Rightarrow> TestResult ToolResult settled \<Rightarrow> 'r ToolResult settled
     \<Rightarrow> AccessibilityData ToolResult settled \<Rightarrow> 'i ToolResult settled
     \<Rightarrow> ('r, 'i) VisualTestingData ToolResult \<times> WorkflowContext" where
  "executeVisualTestingWorkflow context elapsed visualResult responsiveResult
       accessibilityResult imagesResult =
     (let testResults0 = [];
          testResults1 =
            (if fulfilled_ok visualResult then testResults0 @ [settled_data visualResult]
             else testResults0);
          testResults2 =
            (if fulfilled_ok responsiveResult then testResults1 @ [Some responsiveEntry]
             else testResults1)
      in
      case (if fulfilled_ok accessibilityResult then
              (case settled_data accessibilityResult of
                 None \<Rightarrow> Inl (typeError ''undefined'' ''passed'')
               | Some d \<Rightarrow> Inr (testResults2 @ [Some (accessibilityEntry d)]))
            else Inr testResults2)
      of
        Inl x \<Rightarrow> (caught x, context)
      | Inr testResults3 \<Rightarrow>
          (ok \<lparr>visualTest = settled_data visualResult,
               responsiveTest = settled_data responsiveResult,
               accessibilityTest = settled_data accessibilityResult,
               figmaImages = settled_data imagesResult,
               duration = elapsed\<rparr>,
           context\<lparr>testResults := Some testResults3\<rparr>))"

text \<open>
  The shape of what \<^verbatim>\<open>validateAccessibility\<close> returns: a success always carries its
  data \<^verbatim>\<open>{ passed, issues }\<close>.
\<close>

fun carries_data :: "'a ToolResult settled \<Rightarrow> bool" where
  "carries_data (Fulfilled v) = (success v \<longrightarrow> data v \<noteq> None)"
| "carries_data (Rejected _) = True"


definition demo_context :: WorkflowContext where
  "demo_context =
     \<lparr>figmaFileId = ''abc123def456'', frameId = ''1:2'', componentName = ''HeroButton'',
      outputPath = ''out'', githubBranch = ''feature/herobutton'', testResults = None\<rparr>"

section \<open>JavaScript string helpers\<close>

text \<open>\<^verbatim>\<open>s.startsWith(p)\<close>, as the rest after the prefix.\<close>

fun strip_prefix :: "string \<Rightarrow> string \<Rightarrow> string option" where
  "strip_prefix [] s = Some s"
| "strip_prefix (p # ps) [] = None"
| "strip_prefix (p # ps) (c # cs) = (if p = c then strip_prefix ps cs else None)"

text \<open>
  \<^verbatim>\<open>s.replace(pat, rep)\<close> with a string pattern replaces the first occurrence only;
  the patterns of the source are not empty.
\<close>

fun replace_first :: "string \<Rightarrow> string \<Rightarrow> string \<Rightarrow> string" where
  "replace_first pat rep [] = []"
| "replace_first pat rep (c # cs) =
     (case strip_prefix pat (c # cs) of
        Some rest \<Rightarrow> rep @ rest
      | None \<Rightarrow> c # replace_first pat rep cs)"

section \<open>Image comparison and visual test (integrations/playwright.ts)\<close>

text \<open>
  The libraries and the machine around the adapter: \<^verbatim>\<open>PNG.sync.read\<close> and
  \<^verbatim>\<open>PNG.sync.write\<close> of pngjs, \<^verbatim>\<open>pixelmatch\<close> (the number of differing pixels and
  the diff buffer it fills, or an exception), \<^verbatim>\<open>path.join\<close>, the file operations that
  may throw, and the browser: whether acquiring a context throws, and what navigating
  and taking the screenshot produces (the bytes written, or an exception).
\<close>

record machine =
  png_read :: "string \<Rightarrow> thrown + PNG"
  png_write :: "PNG \<Rightarrow> string"
  pixelmatch :: "nat list \<Rightarrow> nat list \<Rightarrow> nat \<Rightarrow> nat \<Rightarrow> real \<Rightarrow> thrown + (nat \<times> nat list)"
  path_join :: "string \<Rightarrow> string \<Rightarrow> string"
  mkdir_throws :: "string \<Rightarrow> thrown option"
  write_throws :: "string \<Rightarrow> thrown option"
  copy_throws :: "string \<Rightarrow> string \<Rightarrow> thrown option"
  context_throws :: "thrown option"
  page_shot :: "string \<Rightarrow> string option \<Rightarrow> thrown + string"
  default_shot_name :: string

text \<open>The disk, and the number of calls of \<^verbatim>\<open>pixelmatch\<close> made so far.\<close>

record world =
  files :: "string \<rightharpoonup> string"
  compared :: nat

record ScreenshotData =
  screenshotPath :: string

text \<open>
  \<^verbatim>\<open>captureScreenshot\<close>. The context is acquired before the \<^verbatim>\<open>try\<close>, so a failing
  acquisition rejects the promise (\<open>Inl\<close>); everything after it is caught.
  \<^verbatim>\<open>outputPath || `screenshot-${Date.now()}.png`\<close>: an absent or empty path is falsy.
\<close>

definition captureScreenshot ::
  "machine \<Rightarrow> string \<Rightarrow> string option \<Rightarrow> string option \<Rightarrow> world
     \<Rightarrow> thrown + (ScreenshotData ToolResult \<times> world)" where
  "captureScreenshot m url selector outPath w =
     (case context_throws m of
        Some x \<Rightarrow> Inl x
      | None \<Rightarrow>
          (case page_shot m url selector of
             Inl x \<Rightarrow> Inr (caught x, w)
           | Inr bytes \<Rightarrow>
               let shotPath = (case outPath of
                                 None \<Rightarrow> default_shot_name m
                               | Some p \<Rightarrow> if p = [] then default_shot_name m else p)
               in Inr (ok \<lparr>screenshotPath = shotPath\<rparr>,
                       w\<lparr>files := (files w)(shotPath \<mapsto> bytes)\<rparr>)))"

text \<open>
  \<^verbatim>\<open>compareScreenshots\<close>. The threshold is a number the caller passes, a finite
  double. The image dimensions and the count of differing pixels are integers that are
  doubles as they are. Each operation of
  \<^verbatim>\<open>totalPixels = width * height\<close>,
  \<^verbatim>\<open>similarity = ((totalPixels - pixelDifference) / totalPixels) * 100\<close> and
  \<^verbatim>\<open>passed = similarity >= 100 - threshold * 100\<close> is an operation on doubles.
\<close>

definition compareScreenshots ::
  "machine \<Rightarrow> string \<Rightarrow> string \<Rightarrow> real \<Rightarrow> world \<Rightarrow> ScreenshotComparison ToolResult \<times> world" where
  "compareScreenshots m basePath currentPath threshold w =
     (let baseExists = (files w basePath \<noteq> None);
          currentExists = (files w currentPath \<noteq> None)
      in
      if \<not> baseExists \<or> \<not> currentExists then
        (failure ''One or both image files do not exist'', w)
      else
        case png_read m (the (files w basePath)) of Inl x \<Rightarrow> (caught x, w) | Inr baseImage \<Rightarrow>
        case png_read m (the (files w currentPath)) of Inl x \<Rightarrow> (caught x, w) | Inr currentImage \<Rightarrow>
        if width baseImage \<noteq> width currentImage \<or> height baseImage \<noteq> height currentImage then
          (failure ''Images have different dimensions'', w)
        else
          let w1 = w\<lparr>compared := Suc (compared w)\<rparr> in
          case pixelmatch m (PNG.data baseImage) (PNG.data currentImage)
                 (width baseImage) (height baseImage) threshold of
            Inl x \<Rightarrow> (caught x, w1)
          | Inr (pixelDiff, diffData) \<Rightarrow>
              let totalPixels = num_mul (Fin (real (width baseImage))) (Fin (real (height baseImage)));
                  sim = num_mul (num_div (num_sub totalPixels (Fin (real pixelDiff))) totalPixels)
                          (Fin 100);
                  pass = num_ge sim (num_sub (Fin 100) (num_mul (Fin threshold) (Fin 100)));
                  diffPath = replace_first ''.png'' ''-diff.png'' currentPath
              in
              case write_throws m diffPath of
                Some x \<Rightarrow> (caught x, w1)
              | None \<Rightarrow>
                  (ok \<lparr>baseImagePath = basePath, currentImagePath = currentPath,
                        diffImagePath = diffPath, similarity = sim,
                        pixelDifference = pixelDiff, passed = pass\<rparr>,
                   w1\<lparr>files := (files w1)(diffPath \<mapsto>
                          png_write m \<lparr>width = width baseImage, height = height baseImage,
                                        data = diffData\<rparr>)\<rparr>))"

text \<open>
  \<^verbatim>\<open>runVisualTest\<close>. \<open>elapsed\<close> is \<^verbatim>\<open>Date.now() - startTime\<close>. A failed capture
  is returned as it is; \<^verbatim>\<open>fs.copyFile\<close> throws when its source is missing.
  \<^verbatim>\<open>compareScreenshots\<close> is called with its default threshold, the double that the
  literal \<^verbatim>\<open>0.1\<close> denotes.
\<close>

definition runVisualTest ::
  "machine \<Rightarrow> string \<Rightarrow> string \<Rightarrow> string option \<Rightarrow> string \<Rightarrow> int \<Rightarrow> world
     \<Rightarrow> (ScreenshotData + TestResult) ToolResult \<times> world" where
  "runVisualTest m testName url selector baselineDir elapsed w =
     (case mkdir_throws m baselineDir of Some x \<Rightarrow> (caught x, w) | None \<Rightarrow>
      let currentPath = path_join m baselineDir (testName @ ''-current.png'') in
      case captureScreenshot m url selector (Some currentPath) w of
        Inl x \<Rightarrow> (caught x, w)
      | Inr (screenshotResult, w1) \<Rightarrow>
          if \<not> success screenshotResult then
            (\<lparr>success = success screenshotResult,
              data = map_option Inl (data screenshotResult),
              error = ToolResult.error screenshotResult\<rparr>, w1)
          else
            let basePath = path_join m baselineDir (testName @ ''-baseline.png'');
                baselineExists = (files w1 basePath \<noteq> None)
            in
            case (if baselineExists then
                    (let (comparisonResult, w2) = compareScreenshots m basePath currentPath (round_double (1 / 10)) w1
                     in if success comparisonResult then
                          Inr (data comparisonResult,
                               (case data comparisonResult of
                                  None \<Rightarrow> False
                                | Some c \<Rightarrow> ScreenshotComparison.passed c),
                               None, w2)
                        else Inr (None, False, ToolResult.error comparisonResult, w2))
                  else
                    (case files w1 currentPath of
                       None \<Rightarrow> Inl (Error ''ENOENT: no such file or directory'')
                     | Some bytes \<Rightarrow>
                         (case copy_throws m currentPath basePath of
                            Some x \<Rightarrow> Inl x
                          | None \<Rightarrow>
                              Inr (None, True, None,
                                   w1\<lparr>files := (files w1)(basePath \<mapsto> bytes)\<rparr>))))
            of
              Inl x \<Rightarrow> (caught x, w1)
            | Inr (comparison, pass, err, w3) \<Rightarrow>
                (ok (Inr \<lparr>TestResult.name = testName, passed = pass,
                          error = (case err of None \<Rightarrow> None
                                   | Some e \<Rightarrow> if e = [] then None else Some e),
                          screenshots = map_option (\<lambda>c. [c]) comparison,
                          duration = elapsed\<rparr>), w3))"

text \<open>A machine, an image and a disk for concrete runs.\<close>

definition demo_png :: PNG where
  "demo_png = \<lparr>width = 4, height = 5, data = []\<rparr>"

definition demo_machine :: machine where
  "demo_machine =
     \<lparr>png_read = (\<lambda>_. Inr demo_png),
      png_write = (\<lambda>_. ''diff''),
      pixelmatch = (\<lambda>_ _ _ _ _. Inr (3, [])),
      path_join = (\<lambda>a b. a @ ''/'' @ b),
      mkdir_throws = (\<lambda>_. None),
      write_throws = (\<lambda>_. None),
      copy_throws = (\<lambda>_ _. None),
      context_throws = None,
      page_shot = (\<lambda>_ _. Inr ''shot''),
      default_shot_name = ''screenshot-0.png''\<rparr>"

definition demo_world :: world where
  "demo_world = \<lparr>files = [''a.png'' \<mapsto> ''A'', ''b.png'' \<mapsto> ''B''], compared = 0\<rparr>"

text \<open>The same machine for two images of the given size with the given number of differing pixels.\<close>

definition machine_for :: "nat \<Rightarrow> nat \<Rightarrow> nat \<Rightarrow> machine" where
  "machine_for wd ht d =
     demo_machine\<lparr>png_read := (\<lambda>_. Inr \<lparr>width = wd, height = ht, data = []\<rparr>),
                  pixelmatch := (\<lambda>_ _ _ _ _. Inr (d, []))\<rparr>"

section \<open>Source-hosting adapter (integrations/github.ts, createCommit)\<close>

text \<open>
  The git database of the hosting service. An object name (\<^verbatim>\<open>sha\<close>) is modelled by
  the object it names: names are content addresses, and the hash is taken to be injective.
  A tree entry is \<^verbatim>\<open>{ path, mode, type, sha }\<close>; a tree created with \<^verbatim>\<open>base_tree\<close>
  keeps the name of its base beside its own entries.
\<close>

datatype sha =
    BlobSha string
  | TreeSha "sha option" "(string \<times> string \<times> string \<times> sha) list"
  | CommitSha string sha "sha list"

record repo =
  refs :: "string \<rightharpoonup> sha"
  objects :: "sha set"
  ref_moves :: nat

text \<open>
  The requests \<^verbatim>\<open>createCommit\<close> sends, and which of them the service answers with an
  error (a network failure, a 4xx or a 5xx): octokit throws it.
\<close>

datatype request =
    GetRef string
  | GetCommit sha
  | CreateBlob string
  | CreateTree sha "(string \<times> string \<times> string \<times> sha) list"
  | CreateCommitObject string sha "sha list"
  | UpdateRef string sha

type_synonym faults = "request \<Rightarrow> thrown option"

definition notFound :: thrown where
  "notFound = Error ''Not Found''"

record CommitResult =
  commitSha :: sha
  message :: string

text \<open>
  \<^verbatim>\<open>Promise.all(files.map(async (file) => ...createBlob...))\<close>: every request is sent
  before any answer is awaited, so each blob whose request succeeds is stored, whatever
  happens to the others. The result is the rejections, in the order of the files, the
  list \<^verbatim>\<open>{ path, sha }\<close> and the objects of the service. The content travels
  base64-encoded and is stored decoded.
\<close>

fun createBlobs ::
  "faults \<Rightarrow> CommitFile list \<Rightarrow> sha set \<Rightarrow> thrown list \<times> (string \<times> sha) list \<times> sha set" where
  "createBlobs fl [] objs = ([], [], objs)"
| "createBlobs fl (file # rest) objs =
     (case fl (CreateBlob (CommitFile.content file)) of
        Some x \<Rightarrow>
          (case createBlobs fl rest objs of (errs, blobs, objs') \<Rightarrow> (x # errs, blobs, objs'))
      | None \<Rightarrow>
          (case createBlobs fl rest (insert (BlobSha (CommitFile.content file)) objs) of
             (errs, blobs, objs') \<Rightarrow>
               (errs, (path file, BlobSha (CommitFile.content file)) # blobs, objs')))"

text \<open>
  \<^verbatim>\<open>createCommit\<close>. When blob requests are rejected, \<^verbatim>\<open>Promise.all\<close> rejects with the
  rejection that arrives first; which one that is is the network's choice, \<open>arrival\<close>.
\<close>

definition createCommit ::
  "faults \<Rightarrow> nat \<Rightarrow> string \<Rightarrow> CommitFile list \<Rightarrow> string \<Rightarrow> repo
     \<Rightarrow> CommitResult ToolResult \<times> repo" where
  "createCommit fl arrival branchName fileList msg s =
     (let ref = ''heads/'' @ branchName in
      case fl (GetRef ref) of Some x \<Rightarrow> (caught x, s) | None \<Rightarrow>
      case refs s ref of None \<Rightarrow> (caught notFound, s) | Some head \<Rightarrow>
      case fl (GetCommit head) of Some x \<Rightarrow> (caught x, s) | None \<Rightarrow>
      if head \<notin> objects s then (caught notFound, s) else
      case head of
        CommitSha _ baseTree _ \<Rightarrow>
          (case createBlobs fl fileList (objects s) of
             (x # errs, _, objs1) \<Rightarrow>
               (caught ((x # errs) ! (arrival mod length (x # errs))), s\<lparr>objects := objs1\<rparr>)
           | ([], blobs, objs1) \<Rightarrow>
               let s1 = s\<lparr>objects := objs1\<rparr>;
                   entries = map (\<lambda>(p, b). (p, ''100644'', ''blob'', b)) blobs
               in
               case fl (CreateTree baseTree entries) of Some x \<Rightarrow> (caught x, s1) | None \<Rightarrow>
               let tree = TreeSha (Some baseTree) entries;
                   s2 = s1\<lparr>objects := insert tree (objects s1)\<rparr>
               in
               case fl (CreateCommitObject msg tree [head]) of
                 Some x \<Rightarrow> (caught x, s2) | None \<Rightarrow>
               let newCommit = CommitSha msg tree [head];
                   s3 = s2\<lparr>objects := insert newCommit (objects s2)\<rparr>
               in
               case fl (UpdateRef ref newCommit) of Some x \<Rightarrow> (caught x, s3) | None \<Rightarrow>
               (ok \<lparr>CommitResult.commitSha = newCommit, message = msg\<rparr>,
                s3\<lparr>refs := (refs s3)(ref \<mapsto> newCommit), ref_moves := Suc (ref_moves s3)\<rparr>))
      | _ \<Rightarrow> (caught notFound, s))"

text \<open>The tree entries a commit of the given files must contain, one for each file.\<close>

definition entries_of :: "CommitFile list \<Rightarrow> (string \<times> string \<times> string \<times> sha) list" where
  "entries_of fileList =
     map (\<lambda>f. (path f, ''100644'', ''blob'', BlobSha (CommitFile.content f))) fileList"

text \<open>A repository, three files and two fault plans for concrete runs.\<close>

definition demo_head :: sha where
  "demo_head = CommitSha ''initial'' (TreeSha None []) []"

definition demo_repo :: repo where
  "demo_repo =
     \<lparr>refs = [''heads/feature/herobutton'' \<mapsto> demo_head],
      objects = {demo_head, TreeSha None []}, ref_moves = 0\<rparr>"

definition demo_files :: "CommitFile list" where
  "demo_files =
     [\<lparr>path = ''src/components/HeroButton/HeroButton.tsx'', content = ''tsx''\<rparr>,
      \<lparr>path = ''src/components/HeroButton/HeroButton.css'', content = ''css''\<rparr>,
      \<lparr>path = ''src/components/HeroButton/index.ts'', content = ''index''\<rparr>]"

definition no_faults :: faults where
  "no_faults = (\<lambda>_. None)"

definition second_blob_fails :: faults where
  "second_blob_fails = (\<lambda>r. if r = CreateBlob ''css'' then Some (Error ''Bad Gateway'') else None)"

section \<open>Design tokens (src/integrations/figma.ts, extractDesignTokensOptimized)\<close>

text \<open>
  The part of a node of the design document that the token extraction reads. A paint is
  \<^verbatim>\<open>{ type, color?: { r, g, b, a? } }\<close>; \<open>fontFamily\<close> is \<^verbatim>\<open>node.style?.fontFamily\<close>;
  the bounding box is its width and height. Absent \<^verbatim>\<open>children\<close> are the empty list:
  the traversal pushes nothing in either case.
\<close>

datatype paint = Paint (paint_type: string) (color: "(real \<times> real \<times> real \<times> real option) option")

datatype node =
  Node (fills: "paint list option") (fontFamily: "string option")
       (absoluteBoundingBox: "(real \<times> real) option") (cornerRadius: "real option")
       (children: "node list")

text \<open>
  A JavaScript \<^verbatim>\<open>Map\<close> keeps its keys in insertion order: \<^verbatim>\<open>set\<close> replaces the value
  of a key that is present where it stands, and appends a new key at the end.
\<close>

fun map_set :: "'k \<Rightarrow> 'v \<Rightarrow> ('k \<times> 'v) list \<Rightarrow> ('k \<times> 'v) list" where
  "map_set k v [] = [(k, v)]"
| "map_set k v (p # ps) = (if fst p = k then (k, v) # ps else p # map_set k v ps)"

definition map_values :: "('k \<times> 'v) list \<Rightarrow> 'v list" where
  "map_values m = map snd m"

text \<open>\<^verbatim>\<open>Math.round\<close> rounds to the nearest integer, a half upwards.\<close>

definition math_round :: "real \<Rightarrow> int" where
  "math_round x = \<lfloor>x + 1 / 2\<rfloor>"

text \<open>
  The keys of the token cache are template strings; each is an injective rendering of the
  values it interpolates and is modelled by those values: \<^verbatim>\<open>`w-${width}`\<close> is
  \<open>WidthKey width\<close>, \<^verbatim>\<open>`h-${height}`\<close> is \<open>HeightKey height\<close>, \<^verbatim>\<open>`br-${cornerRadius}`\<close>
  is the radius, \<^verbatim>\<open>`${r}-${g}-${b}-${a}`\<close> is the four components. A colour value
  \<^verbatim>\<open>`rgba(R, G, B, a)`\<close> is the tuple of what it prints.
\<close>

datatype spacing_key = WidthKey int | HeightKey int

record DesignTokenCache =
  colors :: "((real \<times> real \<times> real \<times> real) \<times> (int \<times> int \<times> int \<times> real)) list"
  fonts :: "(string \<times> string) list"
  spacing :: "(spacing_key \<times> int) list"
  borderRadius :: "(real \<times> real) list"

definition empty_tokenCache :: DesignTokenCache where
  "empty_tokenCache = \<lparr>colors = [], fonts = [], spacing = [], borderRadius = []\<rparr>"

fun add_fill :: "paint \<Rightarrow> DesignTokenCache \<Rightarrow> DesignTokenCache" where
  "add_fill (Paint ty (Some (r, g, b, alpha))) tc =
     (if ty = ''SOLID'' then
        (let a = (case alpha of None \<Rightarrow> 1 | Some x \<Rightarrow> x) in
         tc\<lparr>colors := map_set (r, g, b, a)
               (math_round (r * 255), math_round (g * 255), math_round (b * 255), a)
               (colors tc)\<rparr>)
      else tc)"
| "add_fill (Paint ty None) tc = tc"

definition processNodeForTokens :: "node \<Rightarrow> DesignTokenCache \<Rightarrow> DesignTokenCache" where
  "processNodeForTokens n tc =
     (let tc1 = (case fills n of None \<Rightarrow> tc | Some fs \<Rightarrow> fold add_fill fs tc);
          tc2 = (case fontFamily n of
                   None \<Rightarrow> tc1
                 | Some fam \<Rightarrow> if fam = [] then tc1
                               else tc1\<lparr>fonts := map_set fam fam (fonts tc1)\<rparr>);
          tc3 = (case absoluteBoundingBox n of
                   None \<Rightarrow> tc2
                 | Some (bw, bh) \<Rightarrow>
                     let w = math_round bw; h = math_round bh;
                         tcw = (if w > 0 then tc2\<lparr>spacing := map_set (WidthKey w) w (spacing tc2)\<rparr>
                                else tc2)
                     in if h > 0 then tcw\<lparr>spacing := map_set (HeightKey h) h (spacing tcw)\<rparr>
                        else tcw)
      in case cornerRadius n of
           None \<Rightarrow> tc3
         | Some cr \<Rightarrow> tc3\<lparr>borderRadius := map_set cr cr (borderRadius tc3)\<rparr>)"

text \<open>
  The work list \<^verbatim>\<open>nodesToProcess\<close>, with the end of the JavaScript array at the head of
  the list: \<^verbatim>\<open>pop()\<close> takes the head, \<^verbatim>\<open>push(...node.children)\<close> puts the children
  in front, the last child first.
\<close>

fun node_count :: "node \<Rightarrow> nat" where
  "node_count (Node _ _ _ _ cs) = Suc (sum_list (map node_count cs))"

function process_all :: "node list \<Rightarrow> DesignTokenCache \<Rightarrow> DesignTokenCache" where
  "process_all [] tc = tc"
| "process_all (n # rest) tc = process_all (rev (children n) @ rest) (processNodeForTokens n tc)"
  by pat_completeness auto
termination
proof (relation "measure (\<lambda>(stack, tc). sum_list (map node_count stack))")
  show "wf (measure (\<lambda>(stack, tc). sum_list (map node_count stack)))" by simp
next
  fix n :: node and rest :: "node list" and tc :: DesignTokenCache
  have "sum_list (map node_count (rev (children n))) < node_count n"
    by (cases n) (simp add: rev_map [symmetric])
  then show "((rev (children n) @ rest, processNodeForTokens n tc), n # rest, tc)
               \<in> measure (\<lambda>(stack, tc). sum_list (map node_count stack))"
    by simp
qed

record DesignTokens =
  colors :: "(int \<times> int \<times> int \<times> real) list"
  fonts :: "string list"
  spacing :: "int list"
  borderRadius :: "real list"

definition extractDesignTokensOptimized :: "node \<Rightarrow> DesignTokens" where
  "extractDesignTokensOptimized document =
     (let tc = process_all [document] empty_tokenCache in
      \<lparr>colors = map_values (DesignTokenCache.colors tc),
       fonts = map_values (DesignTokenCache.fonts tc),
       spacing = sort (map_values (DesignTokenCache.spacing tc)),
       borderRadius = sort (map_values (DesignTokenCache.borderRadius tc))\<rparr>)"

text \<open>
  The repository's earlier extraction, \<^verbatim>\<open>extractDesignTokens\<close> with \<^verbatim>\<open>traverseNode\<close>:
  it collects into JavaScript \<^verbatim>\<open>Set\<close>s, which keep one copy of a value, in insertion
  order. It takes the width and the height as they are, unrounded.
\<close>

definition set_add :: "'a \<Rightarrow> 'a list \<Rightarrow> 'a list" where
  "set_add x xs = (if x \<in> set xs then xs else xs @ [x])"

record TokenSets =
  colors :: "(int \<times> int \<times> int \<times> real) list"
  fonts :: "string list"
  spacing :: "real list"
  borderRadius :: "real list"

fun add_fill_color :: "paint \<Rightarrow> TokenSets \<Rightarrow> TokenSets" where
  "add_fill_color (Paint ty (Some (r, g, b, alpha))) ts =
     (if ty = ''SOLID'' then
        (let a = (case alpha of None \<Rightarrow> 1 | Some x \<Rightarrow> x) in
         ts\<lparr>TokenSets.colors :=
               set_add (math_round (r * 255), math_round (g * 255), math_round (b * 255), a)
                 (TokenSets.colors ts)\<rparr>)
      else ts)"
| "add_fill_color (Paint ty None) ts = ts"

definition collect_tokens :: "node \<Rightarrow> TokenSets \<Rightarrow> TokenSets" where
  "collect_tokens n ts =
     (let ts1 = (case fills n of None \<Rightarrow> ts | Some fs \<Rightarrow> fold add_fill_color fs ts);
          ts2 = (case fontFamily n of
                   None \<Rightarrow> ts1
                 | Some fam \<Rightarrow> if fam = [] then ts1
                               else ts1\<lparr>TokenSets.fonts := set_add fam (TokenSets.fonts ts1)\<rparr>);
          ts3 = (case absoluteBoundingBox n of
                   None \<Rightarrow> ts2
                 | Some (bw, bh) \<Rightarrow>
                     ts2\<lparr>TokenSets.spacing := set_add bh (set_add bw (TokenSets.spacing ts2))\<rparr>)
      in case cornerRadius n of
           None \<Rightarrow> ts3
         | Some cr \<Rightarrow> ts3\<lparr>TokenSets.borderRadius := set_add cr (TokenSets.borderRadius ts3)\<rparr>)"

fun traverseNode :: "(node \<Rightarrow> 'a \<Rightarrow> 'a) \<Rightarrow> node \<Rightarrow> 'a \<Rightarrow> 'a" where
  "traverseNode callback (Node f ff b c cs) acc =
     fold (traverseNode callback) cs (callback (Node f ff b c cs) acc)"

definition extractDesignTokens :: "node \<Rightarrow> TokenSets" where
  "extractDesignTokens document =
     (let ts = traverseNode collect_tokens document
                 \<lparr>colors = [], fonts = [], spacing = [], borderRadius = []\<rparr>
      in ts\<lparr>TokenSets.spacing := sort (TokenSets.spacing ts),
            TokenSets.borderRadius := sort (TokenSets.borderRadius ts)\<rparr>)"

text \<open>A document that is one square frame of 100 by 100 pixels.\<close>

definition square_frame :: node where
  "square_frame = Node None None (Some (100, 100)) None []"

section \<open>Browser context pool (integrations/playwright.ts, getContext, releaseContext, close)\<close>

text \<open>
  \<^verbatim>\<open>interface BrowserPool { browser; contexts: BrowserContext[]; activeContexts: number }\<close>.
  A context is named by a number; \<open>contexts\<close> is the array of idle ones, in the order
  of the array.
\<close>

record BrowserPool =
  browser :: nat
  contexts :: "nat list"
  activeContexts :: int

definition maxContexts :: int where
  "maxContexts = 5"

text \<open>
  The adapter runs on one cooperative scheduler: code between two \<^verbatim>\<open>await\<close>s is one
  step, and control may pass to any other caller at an \<^verbatim>\<open>await\<close>. A caller of
  \<^verbatim>\<open>getContext\<close> is at one of these points:
  \<^item> \<open>Idle\<close>: it has not called, or has released what it held;
  \<^item> \<open>AwaitInit p\<close>: suspended at \<^verbatim>\<open>await this.initialize()\<close>, on the promise of launch
    \<open>p\<close>, or on an already fulfilled promise (\<open>None\<close>) when the pool existed;
  \<^item> \<open>AwaitNewContext\<close>: suspended at \<^verbatim>\<open>await this.browserPool.browser.newContext()\<close>;
  \<^item> \<open>Polling\<close>: suspended at the \<^verbatim>\<open>setTimeout\<close> of the waiting loop;
  \<^item> \<open>Holding c\<close>: \<^verbatim>\<open>getContext\<close> has returned the context \<open>c\<close>;
  \<^item> \<open>Failed x\<close>: \<^verbatim>\<open>getContext\<close> has thrown \<open>x\<close>.
\<close>

datatype pc = Idle | AwaitInit "nat option" | AwaitNewContext | Polling | Holding nat | Failed thrown

datatype launch = Launching | Launched | LaunchFailed thrown

text \<open>
  The adapter's fields \<open>browserPool\<close> and \<open>initializationPromise\<close> (the number of the
  launch whose promise it is), and around them: every call of \<^verbatim>\<open>chromium.launch\<close> so far
  with its outcome, the contexts that are open, the number of contexts ever created, and
  the callers.
\<close>

record adapter =
  browserPool :: "BrowserPool option"
  initializationPromise :: "nat option"
  launches :: "launch list"
  live :: "nat list"
  created :: nat
  callers :: "nat \<Rightarrow> pc"

definition fresh_adapter :: adapter where
  "fresh_adapter =
     \<lparr>browserPool = None, initializationPromise = None, launches = [], live = [],
      created = 0, callers = (\<lambda>_. Idle)\<rparr>"

text \<open>
  \<^verbatim>\<open>initialize()\<close> up to its first suspension, for caller \<open>t\<close>: with a pool it returns at
  once; with a launch in flight it returns that promise; otherwise it starts
  \<^verbatim>\<open>createBrowserPool()\<close>, which calls \<^verbatim>\<open>chromium.launch\<close> and suspends.
\<close>

definition initialize :: "nat \<Rightarrow> adapter \<Rightarrow> adapter" where
  "initialize t s =
     (if browserPool s \<noteq> None then s\<lparr>callers := (callers s)(t := AwaitInit None)\<rparr>
      else case initializationPromise s of
             Some p \<Rightarrow> s\<lparr>callers := (callers s)(t := AwaitInit (Some p))\<rparr>
           | None \<Rightarrow>
               s\<lparr>initializationPromise := Some (length (launches s)),
                 launches := launches s @ [Launching],
                 callers := (callers s)(t := AwaitInit (Some (length (launches s))))\<rparr>)"

text \<open>
  \<^verbatim>\<open>getContext\<close> after \<^verbatim>\<open>await this.initialize()\<close> has resumed, up to its next suspension
  or its return.
\<close>

definition getContext_body :: "nat \<Rightarrow> adapter \<Rightarrow> adapter" where
  "getContext_body t s =
     (case browserPool s of
        None \<Rightarrow> s\<lparr>callers := (callers s)(t := Failed (Error ''Browser pool not initialized''))\<rparr>
      | Some pool \<Rightarrow>
          if length (contexts pool) > 0 then
            s\<lparr>browserPool := Some (pool\<lparr>contexts := butlast (contexts pool),
                                         activeContexts := activeContexts pool + 1\<rparr>),
              callers := (callers s)(t := Holding (last (contexts pool)))\<rparr>
          else if activeContexts pool < maxContexts then
            s\<lparr>callers := (callers s)(t := AwaitNewContext)\<rparr>
          else s\<lparr>callers := (callers s)(t := Polling)\<rparr>)"

text \<open>
  What can happen next: a caller calls \<^verbatim>\<open>getContext\<close>; a launch completes or fails; a
  suspended caller resumes; a caller releases the context it holds; \<^verbatim>\<open>close()\<close> runs
  (taken as one step, at its completion).
\<close>

datatype event = Call nat | LaunchDone nat | LaunchFails nat thrown | Resume nat | Release nat | Close

text \<open>One step; \<open>None\<close> when the event cannot happen in the state.\<close>

definition step :: "event \<Rightarrow> adapter \<Rightarrow> adapter option" where
  "step e s =
     (case e of
        Call t \<Rightarrow> (if callers s t = Idle then Some (initialize t s) else None)
      | LaunchDone p \<Rightarrow>
          (if p < length (launches s) \<and> launches s ! p = Launching then
             Some (s\<lparr>browserPool := Some \<lparr>browser = p, contexts = [], activeContexts = 0\<rparr>,
                     launches := (launches s)[p := Launched]\<rparr>)
           else None)
      | LaunchFails p x \<Rightarrow>
          (if p < length (launches s) \<and> launches s ! p = Launching then
             Some (s\<lparr>launches := (launches s)[p := LaunchFailed x]\<rparr>)
           else None)
      | Resume t \<Rightarrow>
          (case callers s t of
             AwaitInit None \<Rightarrow> Some (getContext_body t s)
           | AwaitInit (Some p) \<Rightarrow>
               (if p < length (launches s) then
                  (case launches s ! p of
                     Launching \<Rightarrow> None
                   | Launched \<Rightarrow> Some (getContext_body t s)
                   | LaunchFailed x \<Rightarrow> Some (s\<lparr>callers := (callers s)(t := Failed x)\<rparr>))
                else None)
           | AwaitNewContext \<Rightarrow>
               (case browserPool s of
                  None \<Rightarrow>
                    Some (s\<lparr>callers := (callers s)
                            (t := Failed (typeError ''null'' ''activeContexts''))\<rparr>)
                | Some pool \<Rightarrow>
                    Some (s\<lparr>browserPool := Some (pool\<lparr>activeContexts := activeContexts pool + 1\<rparr>),
                            live := live s @ [created s],
                            created := Suc (created s),
                            callers := (callers s)(t := Holding (created s))\<rparr>))
           | Polling \<Rightarrow>
               (case browserPool s of
                  None \<Rightarrow>
                    Some (s\<lparr>callers := (callers s)(t := Failed (typeError ''null'' ''contexts''))\<rparr>)
                | Some pool \<Rightarrow>
                    if length (contexts pool) = 0 then Some s else Some (initialize t s))
           | _ \<Rightarrow> None)
      | Release t \<Rightarrow>
          (case callers s t of
             Holding c \<Rightarrow>
               (case browserPool s of
                  None \<Rightarrow> Some (s\<lparr>callers := (callers s)(t := Idle)\<rparr>)
                | Some pool \<Rightarrow>
                    Some (s\<lparr>browserPool := Some (pool\<lparr>contexts := contexts pool @ [c],
                                                       activeContexts := activeContexts pool - 1\<rparr>),
                            callers := (callers s)(t := Idle)\<rparr>))
           | _ \<Rightarrow> None)
      | Close \<Rightarrow>
          Some (case browserPool s of
                  None \<Rightarrow> s\<lparr>initializationPromise := None\<rparr>
                | Some pool \<Rightarrow> s\<lparr>browserPool := None, initializationPromise := None, live := []\<rparr>))"

fun run :: "event list \<Rightarrow> adapter \<Rightarrow> adapter option" where
  "run [] s = Some s"
| "run (e # es) s = (case step e s of None \<Rightarrow> None | Some s' \<Rightarrow> run es s')"

text \<open>Six callers that call together on a fresh adapter, and resume in turn.\<close>

definition six_callers :: "event list" where
  "six_callers =
     [Call 0, Call 1, Call 2, Call 3, Call 4, Call 5, LaunchDone 0,
      Resume 0, Resume 1, Resume 2, Resume 3, Resume 4, Resume 5,
      Resume 0, Resume 1, Resume 2, Resume 3, Resume 4, Resume 5]"

text \<open>One caller that acquires and releases, a shutdown, and a second caller.\<close>

definition acquire_after_close :: "event list" where
  "acquire_after_close =
     [Call 0, LaunchDone 0, Resume 0, Resume 0, Release 0, Close,
      Call 1, LaunchDone 1, Resume 1, Resume 1]"

text \<open>
  An adapter in use: one engine launched, context 0 idle in the pool, context 1 leased to
  caller 3.
\<close>

definition adapter_in_use :: adapter where
  "adapter_in_use =
     \<lparr>browserPool = Some \<lparr>browser = 0, contexts = [0], activeContexts = 1\<rparr>,
      initializationPromise = Some 0, launches = [Launched], live = [0, 1],
      created = 2, callers = (\<lambda>_. Idle)(3 := Holding 1)\<rparr>"

definition reach_adapter_in_use :: "event list" where
  "reach_adapter_in_use =
     [Call 0, Call 3, LaunchDone 0, Resume 0, Resume 3, Resume 0, Resume 3, Release 0]"

text \<open>What is read off a state: the number of engine launches, a caller, the lease count.\<close>

definition launch_count :: "adapter \<Rightarrow> nat" where
  "launch_count s = length (launches s)"

definition caller :: "nat \<Rightarrow> adapter \<Rightarrow> pc" where
  "caller t s = callers s t"

definition lease_count :: "adapter \<Rightarrow> int option" where
  "lease_count s = map_option activeContexts (browserPool s)"

definition idle_contexts :: "adapter \<Rightarrow> nat list option" where
  "idle_contexts s = map_option contexts (browserPool s)"

section \<open>Design locators (utils/figma-parser.ts, FigmaUrlParser)\<close>

text \<open>
  Strings are ASCII here. \<^verbatim>\<open>decodeURIComponent\<close> and \<^verbatim>\<open>encodeURIComponent\<close> are
  modelled on ASCII text: a result is the string, or the \<^verbatim>\<open>URIError\<close> the built-in
  throws, or \<open>Beyond\<close> where the input leaves ASCII (a character or an escape
  \<^verbatim>\<open>%80\<close> to \<^verbatim>\<open>%FF\<close>, which starts a UTF-8 sequence) and the model says nothing.
\<close>

datatype 'a js = Ok 'a | URIError | Beyond

definition is_ascii :: "char \<Rightarrow> bool" where
  "is_ascii c = ((of_char c :: nat) < 128)"

definition is_digit :: "char \<Rightarrow> bool" where
  "is_digit c = (48 \<le> (of_char c :: nat) \<and> (of_char c :: nat) \<le> 57)"

definition hex_val :: "char \<Rightarrow> nat option" where
  "hex_val c =
     (let n = (of_char c :: nat) in
      if 48 \<le> n \<and> n \<le> 57 then Some (n - 48)
      else if 65 \<le> n \<and> n \<le> 70 then Some (n - 55)
      else if 97 \<le> n \<and> n \<le> 102 then Some (n - 87)
      else None)"

definition hex_digit :: "nat \<Rightarrow> char" where
  "hex_digit n = ''0123456789ABCDEF'' ! n"

text \<open>The characters \<^verbatim>\<open>encodeURIComponent\<close> leaves as they are.\<close>

definition unreserved :: "char \<Rightarrow> bool" where
  "unreserved c =
     (c \<in> set (''ABCDEFGHIJKLMNOPQRSTUVWXYZabcdefghijklmnopqrstuvwxyz0123456789''
               @ ''-_.!~*'()''))"

fun encodeURIComponent :: "string \<Rightarrow> string js" where
  "encodeURIComponent [] = Ok []"
| "encodeURIComponent (c # cs) =
     (if \<not> is_ascii c then Beyond
      else case encodeURIComponent cs of
             Ok r \<Rightarrow>
               Ok ((if unreserved c then [c]
                    else [CHR ''%'', hex_digit (of_char c div 16), hex_digit (of_char c mod 16)])
                   @ r)
           | e \<Rightarrow> e)"

fun decodeURIComponent :: "string \<Rightarrow> string js" where
  "decodeURIComponent [] = Ok []"
| "decodeURIComponent (c # cs) =
     (if c = CHR ''%'' then
        (case cs of
           h1 # h2 # rest \<Rightarrow>
             (case (hex_val h1, hex_val h2) of
                (Some a, Some b) \<Rightarrow>
                  if 16 * a + b < 128 then
                    (case decodeURIComponent rest of
                       Ok r \<Rightarrow> Ok (char_of (16 * a + b) # r)
                     | e \<Rightarrow> e)
                  else Beyond
              | _ \<Rightarrow> URIError)
         | _ \<Rightarrow> URIError)
      else if \<not> is_ascii c then Beyond
      else case decodeURIComponent cs of Ok r \<Rightarrow> Ok (c # r) | e \<Rightarrow> e)"

text \<open>
  \<^verbatim>\<open>s.replace(/pat/g, rep)\<close> for a pattern that is a literal text: every occurrence,
  from the left, without overlaps. The patterns of the source are not empty.
\<close>

function replace_all :: "string \<Rightarrow> string \<Rightarrow> string \<Rightarrow> string" where
  "replace_all pat rep [] = []"
| "replace_all pat rep (c # cs) =
     (case (if pat = [] then None else strip_prefix pat (c # cs)) of
        Some rest \<Rightarrow> rep @ replace_all pat rep rest
      | None \<Rightarrow> c # replace_all pat rep cs)"
  by pat_completeness auto
termination
proof (relation "measure (\<lambda>(pat, rep, s). length s)")
  show "wf (measure (\<lambda>(pat, rep, s). length s))" by simp
next
  fix pat rep :: string and c :: char and cs rest :: string
  assume a: "(if pat = [] then None else strip_prefix pat (c # cs)) = Some rest"
  have len: "strip_prefix p s = Some r \<Longrightarrow> length s = length p + length r" for p s r
    by (induction p s rule: strip_prefix.induct) (auto split: if_splits)
  from a have "pat \<noteq> []" and "strip_prefix pat (c # cs) = Some rest"
    by (auto split: if_splits)
  with len [of pat "c # cs" rest] have "length rest < length (c # cs)"
    by (cases pat) auto
  then show "((pat, rep, rest), pat, rep, c # cs) \<in> measure (\<lambda>(pat, rep, s). length s)"
    by simp
next
  fix pat rep :: string and c :: char and cs :: string
  show "((pat, rep, cs), pat, rep, c # cs) \<in> measure (\<lambda>(pat, rep, s). length s)"
    by simp
qed

text \<open>
  \<^verbatim>\<open>decodeNodeId\<close>: the percent-decoded text with every \<^verbatim>\<open>%3A\<close> left in it turned
  into a colon; the input as it is when decoding throws.
\<close>

definition decodeNodeId :: "string \<Rightarrow> string js" where
  "decodeNodeId encodedNodeId =
     (case decodeURIComponent encodedNodeId of
        Ok decoded \<Rightarrow> Ok (replace_all ''%3A'' '':'' decoded)
      | URIError \<Rightarrow> Ok encodedNodeId
      | Beyond \<Rightarrow> Beyond)"

text \<open>
  \<^verbatim>\<open>/^\d+[-:]\d+$/.test(input)\<close> and \<^verbatim>\<open>/^\d+:\d+$/.test(nodeId)\<close>: digits, one
  separator, digits, and nothing else.
\<close>

definition digits_sep_digits :: "(char \<Rightarrow> bool) \<Rightarrow> string \<Rightarrow> bool" where
  "digits_sep_digits sep s =
     (takeWhile is_digit s \<noteq> [] \<and>
      (case dropWhile is_digit s of
         [] \<Rightarrow> False
       | c # r \<Rightarrow> sep c \<and> r \<noteq> [] \<and> list_all is_digit r))"

definition looks_like_node_id :: "string \<Rightarrow> bool" where
  "looks_like_node_id s = digits_sep_digits (\<lambda>c. c = CHR ''-'' \<or> c = CHR '':'') s"

definition isValidNodeId :: "string \<Rightarrow> bool" where
  "isValidNodeId s = digits_sep_digits (\<lambda>c. c = CHR '':'') s"

text \<open>
  \<^verbatim>\<open>input.match(/node-id=([^&]+)/)\<close>: the first place where \<^verbatim>\<open>node-id=\<close> is followed
  by at least one character other than \<^verbatim>\<open>&\<close>; the group is the longest run of such
  characters.
\<close>

fun node_id_match :: "string \<Rightarrow> string option" where
  "node_id_match [] = None"
| "node_id_match (c # cs) =
     (case strip_prefix ''node-id='' (c # cs) of
        Some rest \<Rightarrow>
          if takeWhile (\<lambda>x. x \<noteq> CHR ''&'') rest \<noteq> [] then
            Some (takeWhile (\<lambda>x. x \<noteq> CHR ''&'') rest)
          else node_id_match cs
      | None \<Rightarrow> node_id_match cs)"

definition extractNodeId :: "string \<Rightarrow> string option js" where
  "extractNodeId input =
     (if looks_like_node_id input then Ok (Some (replace_first ''-'' '':'' input))
      else case node_id_match input of
             Some g \<Rightarrow> (case decodeNodeId g of Ok n \<Rightarrow> Ok (Some n) | URIError \<Rightarrow> URIError
                        | Beyond \<Rightarrow> Beyond)
           | None \<Rightarrow> Ok None)"

text \<open>
  \<^verbatim>\<open>createFigmaUrl(fileId, nodeId?, fileName?)\<close>; an absent or empty argument is falsy.
\<close>

definition truthy :: "string option \<Rightarrow> string option" where
  "truthy x = (case x of None \<Rightarrow> None | Some s \<Rightarrow> if s = [] then None else Some s)"

definition createFigmaUrl :: "string \<Rightarrow> string option \<Rightarrow> string option \<Rightarrow> string js" where
  "createFigmaUrl fileId nodeId fileName =
     (let baseUrl = ''https://www.figma.com/file/'' @ fileId @ ''/''
                    @ (case truthy fileName of None \<Rightarrow> ''design'' | Some n \<Rightarrow> n)
      in case truthy nodeId of
           Some n \<Rightarrow>
             (case encodeURIComponent n of
                Ok encodedNodeId \<Rightarrow> Ok (baseUrl @ ''?node-id='' @ encodedNodeId)
              | URIError \<Rightarrow> URIError
              | Beyond \<Rightarrow> Beyond)
         | None \<Rightarrow> Ok baseUrl)"

text \<open>
  The normal form of an encoded text, which is what \<^verbatim>\<open>encodeURIComponent\<close> writes: an
  unreserved character stands for itself, any other ASCII character is a percent escape
  with uppercase digits. The last condition excludes an escaped percent sign followed by
  \<^verbatim>\<open>3A\<close>, whose decoding \<^verbatim>\<open>decodeNodeId\<close> would turn into a colon.
\<close>

fun normal_form :: "string \<Rightarrow> bool" where
  "normal_form [] = True"
| "normal_form (c # cs) =
     (if c = CHR ''%'' then
        (case cs of
           h1 # h2 # rest \<Rightarrow>
             (case (hex_val h1, hex_val h2) of
                (Some a, Some b) \<Rightarrow>
                  16 * a + b < 128 \<and> \<not> unreserved (char_of (16 * a + b))
                  \<and> h1 = hex_digit a \<and> h2 = hex_digit b
                  \<and> \<not> (a = 2 \<and> b = 5 \<and> strip_prefix ''3A'' rest \<noteq> None)
                  \<and> normal_form rest
              | _ \<Rightarrow> False)
         | _ \<Rightarrow> False)
      else is_ascii c \<and> unreserved c \<and> normal_form cs)"

section \<open>Properties of the response cache\<close>

lemma cache_step_other: "op_key (snd x) \<noteq> k \<Longrightarrow> cache_step x c k = c k"
  by (cases x, cases "snd x") (auto simp: setCache_def getCache_def split: option.splits)

lemma cache_run_other: "others k ops \<Longrightarrow> cache_run ops c k = c k"
  by (induction ops arbitrary: c) (simp_all add: others_def cache_step_other)

lemma getCache_entry:
  "c k = Some \<lparr>CacheEntry.data = v, timestamp = t0, ttl = t\<rparr> \<Longrightarrow>
   getCache now k c = (if now - t0 > t then (None, c(k := None)) else (Some v, c))"
  by (simp add: getCache_def)

text \<open>
  Claim C6. After \<open>set(k, v, ttl)\<close> at time \<open>now\<close>, and any operations on other keys,
  a \<open>get(k)\<close> at time \<open>now'\<close> returns \<open>v\<close> while the elapsed time \<open>now' - now\<close> is at
  most \<open>ttl\<close>; once the elapsed time exceeds \<open>ttl\<close> it returns absent, exactly what
  a \<open>get\<close> of a key that was never set returns, and the entry is gone from the cache.
\<close>

theorem cache_get_within_ttl_and_after:
  assumes "others k ops"
  shows "(now' - now \<le> t \<longrightarrow>
            fst (getCache now' k (cache_run ops (setCache now k v t c))) = Some v)
       \<and> (now' - now > t \<longrightarrow>
            fst (getCache now' k (cache_run ops (setCache now k v t c)))
              = fst (getCache now' k (Map.empty :: 'a cache))
          \<and> fst (getCache now' k (cache_run ops (setCache now k v t c))) = None
          \<and> snd (getCache now' k (cache_run ops (setCache now k v t c))) k = None)"
proof -
  have "cache_run ops (setCache now k v t c) k = Some \<lparr>CacheEntry.data = v, timestamp = now, ttl = t\<rparr>"
    using cache_run_other [OF assms] by (simp add: setCache_def)
  then show ?thesis
    by (simp add: getCache_def)
qed

theorem cache_get_within_ttl_and_after_witness:
  "others ''tokens:abc'' [(1500, CSet ''/files/abc'' (7::nat) 300000), (1600, CGet ''/files/abc'')]
   \<and> fst (getCache 2000 ''tokens:abc''
        (cache_run [(1500, CSet ''/files/abc'' 7 300000), (1600, CGet ''/files/abc'')]
           (setCache 1000 ''tokens:abc'' (42::nat) 600000 Map.empty))) = Some 42
   \<and> fst (getCache 601001 ''tokens:abc''
        (cache_run [(1500, CSet ''/files/abc'' 7 300000), (1600, CGet ''/files/abc'')]
           (setCache 1000 ''tokens:abc'' (42::nat) 600000 Map.empty))) = None"
proof -
  have h: "others ''tokens:abc''
      [(1500, CSet ''/files/abc'' (7::nat) 300000), (1600, CGet ''/files/abc'')]"
    by (simp add: others_def)
  show ?thesis
    using h
      cache_get_within_ttl_and_after [OF h, of 2000 1000 600000 42 Map.empty]
      cache_get_within_ttl_and_after [OF h, of 601001 1000 600000 42 Map.empty]
    by (simp add: getCache_def)
qed


section \<open>Properties of the workflow orchestrator\<close>




text \<open>
  Claim C10. For accessibility results of the shape \<^verbatim>\<open>validateAccessibility\<close> returns,
  the test results attached to the context are exactly: the data of the visual test when
  it succeeded; then, when the responsive capture is fulfilled with success and only then,
  the one entry named responsive-design-test with passed true, no error and duration 0,
  whatever the capture's data is; then the accessibility entry, named accessibility-test,
  when that scan succeeded. The responsive slot therefore never contributes an entry that
  is not passed, and no other entry of the workflow's own making bears its name.
\<close>

theorem responsive_entry_always_passed:
  assumes "carries_data accessibilityResult"
  shows "testResults (snd (executeVisualTestingWorkflow context elapsed visualResult
            responsiveResult accessibilityResult imagesResult))
       = Some ((if fulfilled_ok visualResult then [settled_data visualResult] else [])
               @ (if fulfilled_ok responsiveResult
                  then [Some \<lparr>TestResult.name = ''responsive-design-test'', passed = True,
                               error = None, screenshots = None, duration = 0\<rparr>]
                  else [])
               @ (if fulfilled_ok accessibilityResult
                  then (case settled_data accessibilityResult of
                          None \<Rightarrow> []
                        | Some d \<Rightarrow>
                            [Some \<lparr>TestResult.name = ''accessibility-test'',
                                   passed = AccessibilityData.passed d,
                                   error = (if issues d = [] then None
                                            else Some (join_comma (issues d))),
                                   screenshots = None, duration = 0\<rparr>])
                  else []))"
proof (cases accessibilityResult)
  case (Fulfilled v)
  with assms show ?thesis
    by (cases "success v"; cases "data v")
       (auto simp: executeVisualTestingWorkflow_def responsiveEntry_def accessibilityEntry_def)
next
  case (Rejected r)
  then show ?thesis
    by (auto simp: executeVisualTestingWorkflow_def responsiveEntry_def)
qed

theorem responsive_entry_always_passed_witness:
  "carries_data (Fulfilled (ok \<lparr>AccessibilityData.passed = False, issues = [''Image 1 is missing alt text'']\<rparr>))
   \<and> testResults (snd (executeVisualTestingWorkflow demo_context 5
        (Rejected ''Error: timeout'')
        (Fulfilled (ok ''three screenshots of a blank page''))
        (Fulfilled (ok \<lparr>AccessibilityData.passed = False, issues = [''Image 1 is missing alt text'']\<rparr>))
        (Rejected ''Error: 403'' :: unit ToolResult settled)))
     = Some [Some \<lparr>TestResult.name = ''responsive-design-test'', passed = True, error = None,
                   screenshots = None, duration = 0\<rparr>,
             Some \<lparr>TestResult.name = ''accessibility-test'', passed = False,
                   error = Some ''Image 1 is missing alt text'',
                   screenshots = None, duration = 0\<rparr>]"
proof -
  have h: "carries_data (Fulfilled (ok \<lparr>AccessibilityData.passed = False, issues = [''Image 1 is missing alt text'']\<rparr>))"
    by (simp add: ok_def)
  show ?thesis
    using h responsive_entry_always_passed [OF h, of demo_context 5 "Rejected ''Error: timeout''"
        "Fulfilled (ok ''three screenshots of a blank page'')"
        "Rejected ''Error: 403'' :: unit ToolResult settled"]
    by (simp add: ok_def)
qed

section \<open>Properties of the image comparison and of the visual test\<close>

lemmas double_defs = rounded_def round_double_def exponent_def round_half_even_def pow2_def
  bit_length.simps Let_def

text \<open>
  A natural number below \<^term>\<open>2 ^ 53 :: nat\<close> is a double as it is, so the similarity of two
  images without a differing pixel is exactly 100.
\<close>

lemma bit_length_bounds:
  "0 < n \<Longrightarrow> 2 ^ (bit_length n - 1) \<le> n \<and> n < 2 ^ bit_length n"
proof (induction n rule: bit_length.induct)
  case (1 n)
  show ?case
  proof (cases "n div 2 = 0")
    case True
    with "1.prems" have "n = 1" by auto
    then show ?thesis by (simp add: bit_length.simps)
  next
    case False
    then have pos: "0 < n div 2" and n0: "n \<noteq> 0" by auto
    from "1.IH" [OF n0 pos] have lo: "2 ^ (bit_length (n div 2) - 1) \<le> n div 2"
      and hi: "n div 2 < 2 ^ bit_length (n div 2)" by auto
    have k: "bit_length (n div 2) \<noteq> 0" using pos by (simp add: bit_length.simps [of "n div 2"])
    have bl: "bit_length n = Suc (bit_length (n div 2))" using n0 by (simp add: bit_length.simps [of n])
    from k have "(2::nat) ^ bit_length (n div 2) = 2 * 2 ^ (bit_length (n div 2) - 1)"
      by (cases "bit_length (n div 2)") auto
    with lo have "2 ^ bit_length (n div 2) \<le> 2 * (n div 2)" by simp
    then have "2 ^ bit_length (n div 2) \<le> n" by arith
    moreover from hi have "n < 2 * 2 ^ bit_length (n div 2)" by arith
    ultimately show ?thesis using bl by simp
  qed
qed

lemma round_half_even_int: "round_half_even (of_int m) = m"
  by (simp add: round_half_even_def)

lemma round_double_nat:
  assumes "0 < n" and "n < 2 ^ 53"
  shows "round_double (real n) = real n"
proof -
  let ?k = "bit_length n"
  from bit_length_bounds [OF assms(1)] have lo: "2 ^ (?k - 1) \<le> n" and hi: "n < 2 ^ ?k" by auto
  have k1: "1 \<le> ?k" using assms(1) by (simp add: bit_length.simps [of n])
  have k53: "?k \<le> 53"
  proof (rule ccontr)
    assume "\<not> ?k \<le> 53"
    then have "53 \<le> ?k - 1" by simp
    then have "(2::nat) ^ 53 \<le> 2 ^ (?k - 1)" by (rule power_increasing) simp
    with lo assms(2) show False by simp
  qed
  have e: "exponent \<bar>real n\<bar> = int ?k - 1"
    using assms(1) by (simp add: exponent_def)
  have q: "pow2 (int ?k - 1 - 52) = 1 / 2 ^ (53 - ?k)"
  proof (cases "?k = 53")
    case True
    then show ?thesis by (simp add: pow2_def)
  next
    case False
    with k53 have "?k < 53" by simp
    then have "nat (52 + (1 - int ?k)) = 53 - ?k" by simp
    with \<open>?k < 53\<close> show ?thesis by (simp add: pow2_def)
  qed
  have m: "real n / (1 / 2 ^ (53 - ?k)) = of_int (int n * 2 ^ (53 - ?k))" by simp
  have "round_double (real n)
          = of_int (round_half_even (real n / (1 / 2 ^ (53 - ?k)))) * (1 / 2 ^ (53 - ?k))"
    using assms(1) k1 e q by (simp add: round_double_def Let_def max_def)
  also have "\<dots> = of_int (int n * 2 ^ (53 - ?k)) * (1 / 2 ^ (53 - ?k))"
    unfolding m round_half_even_int ..
  also have "\<dots> = real n" by simp
  finally show ?thesis .
qed

lemma rounded_nat: "n < 2 ^ 53 \<Longrightarrow> rounded (real n) = Fin (real n)"
proof (cases "n = 0")
  case True
  then show ?thesis by (simp add: rounded_def round_double_def)
next
  case False
  assume lt: "n < 2 ^ 53"
  with False have r: "round_double (real n) = real n" by (intro round_double_nat) auto
  have "(2::nat) ^ 53 \<le> 2 ^ 1024" by (rule power_increasing) simp_all
  with lt have "n < 2 ^ 1024" by simp
  then have "real n < 2 ^ 1024" by (metis of_nat_less_iff of_nat_numeral of_nat_power)
  with r show ?thesis by (simp add: rounded_def)
qed

lemma identical_similarity:
  assumes "0 < wd * ht" and "wd * ht < 2 ^ 53"
  shows "num_mul (num_div (num_sub (num_mul (Fin (real wd)) (Fin (real ht))) (Fin (real 0)))
            (num_mul (Fin (real wd)) (Fin (real ht)))) (Fin 100) = Fin 100"
proof -
  have t: "num_mul (Fin (real wd)) (Fin (real ht)) = Fin (real (wd * ht))"
    using rounded_nat [OF assms(2)] by simp
  have s: "num_sub (Fin (real (wd * ht))) (Fin (real 0)) = Fin (real (wd * ht))"
    using rounded_nat [OF assms(2)] by simp
  have ne: "real (wd * ht) \<noteq> 0" using assms(1) by simp
  have one: "rounded 1 = Fin 1" using rounded_nat [of 1] by simp
  have d: "num_div (Fin (real (wd * ht))) (Fin (real (wd * ht))) = Fin 1"
    using ne one by simp
  have h: "rounded 100 = Fin 100" using rounded_nat [of 100] by simp
  show ?thesis unfolding t s d using h by simp
qed

text \<open>
  Claim C4 as stated, with its formulas read as arithmetic on real numbers, fails. With 5
  by 8 pixels, 17 of them differing, and the threshold \<^verbatim>\<open>0.425\<close>, the similarity is
  8092405580431359 / 2^47, which prints as 57.49999999999999, not 57.5. With 5 by 1
  pixels, 3 of them differing, and the threshold \<^verbatim>\<open>0.6\<close>, the similarity is 40 and
  the comparison has passed, while 100 - threshold * 100 for that threshold, a double just
  below six tenths, is above 40.
\<close>

theorem compare_is_not_real_arithmetic:
  "map_option similarity (data (fst (compareScreenshots (machine_for 5 8 17) ''a.png'' ''b.png''
       (round_double (17 / 40)) demo_world)))
     = Some (Fin (8092405580431359 / 2 ^ 47))
   \<and> (8092405580431359 / 2 ^ 47 :: real) \<noteq> (40 - 17) / 40 * 100
   \<and> map_option similarity (data (fst (compareScreenshots (machine_for 5 1 3) ''a.png'' ''b.png''
       (round_double (3 / 5)) demo_world)))
     = Some (Fin 40)
   \<and> map_option ScreenshotComparison.passed
       (data (fst (compareScreenshots (machine_for 5 1 3) ''a.png'' ''b.png''
          (round_double (3 / 5)) demo_world)))
     = Some True
   \<and> \<not> ((5 - 3) / 5 * 100 \<ge> 100 - round_double (3 / 5) * 100)"
  by (simp add: compareScreenshots_def machine_for_def demo_machine_def demo_world_def
      ok_def double_defs)

text \<open>
  Claim C4, amended. For two existing images that decode to the same dimensions and for
  every threshold, when \<^verbatim>\<open>pixelmatch\<close> counts \<open>d\<close> differing pixels and the diff image
  can be written, the comparison succeeds, and its similarity and verdict are the claim's
  formulas computed in double precision, every operation rounded to the nearest double:
  with totalPixels = width * height, similarity = ((totalPixels - d) / totalPixels) * 100,
  and passed holds exactly when similarity >= 100 - threshold * 100, where the right-hand
  side is computed the same way. Without pixels the similarity is \<^verbatim>\<open>NaN\<close> and the
  comparison has not passed. Two images with at least one pixel, fewer than \<^term>\<open>2 ^ 53 :: nat\<close>,
  and no differing pixel have similarity exactly 100.
\<close>

theorem compare_similarity_and_pass_bar:
  assumes "files w basePath = Some baseBytes" and "files w currentPath = Some currentBytes"
    and "png_read m baseBytes = Inr baseImage" and "png_read m currentBytes = Inr currentImage"
    and "width baseImage = width currentImage" and "height baseImage = height currentImage"
    and "pixelmatch m (PNG.data baseImage) (PNG.data currentImage)
           (width baseImage) (height baseImage) threshold = Inr (d, diffData)"
    and "totalPixels = num_mul (Fin (real (width baseImage))) (Fin (real (height baseImage)))"
    and "write_throws m (replace_first ''.png'' ''-diff.png'' currentPath) = None"
  shows "\<exists>c. fst (compareScreenshots m basePath currentPath threshold w) = ok c
           \<and> pixelDifference c = d
           \<and> similarity c
               = num_mul (num_div (num_sub totalPixels (Fin (real d))) totalPixels) (Fin 100)
           \<and> (ScreenshotComparison.passed c \<longleftrightarrow>
                num_ge (num_mul (num_div (num_sub totalPixels (Fin (real d))) totalPixels) (Fin 100))
                       (num_sub (Fin 100) (num_mul (Fin threshold) (Fin 100))))
           \<and> (width baseImage = 0 \<or> height baseImage = 0 \<longrightarrow>
                d = 0 \<longrightarrow> similarity c = NaN \<and> \<not> ScreenshotComparison.passed c)
           \<and> (0 < width baseImage * height baseImage \<longrightarrow>
                width baseImage * height baseImage < 2 ^ 53 \<longrightarrow>
                d = 0 \<longrightarrow> similarity c = Fin 100)"
proof -
  have "\<exists>c. fst (compareScreenshots m basePath currentPath threshold w) = ok c
           \<and> pixelDifference c = d
           \<and> similarity c
               = num_mul (num_div (num_sub totalPixels (Fin (real d))) totalPixels) (Fin 100)
           \<and> (ScreenshotComparison.passed c \<longleftrightarrow>
                num_ge (num_mul (num_div (num_sub totalPixels (Fin (real d))) totalPixels) (Fin 100))
                       (num_sub (Fin 100) (num_mul (Fin threshold) (Fin 100))))
           \<and> (width baseImage = 0 \<or> height baseImage = 0 \<longrightarrow>
                d = 0 \<longrightarrow> similarity c = NaN \<and> \<not> ScreenshotComparison.passed c)"
    using assms by (auto simp: compareScreenshots_def Let_def ok_def rounded_def round_double_def)
  moreover have "0 < width baseImage * height baseImage \<longrightarrow>
      width baseImage * height baseImage < 2 ^ 53 \<longrightarrow> d = 0 \<longrightarrow>
      num_mul (num_div (num_sub totalPixels (Fin (real d))) totalPixels) (Fin 100) = Fin 100"
    using identical_similarity [of "width baseImage" "height baseImage"] assms(8) by simp
  ultimately show ?thesis by auto
qed

theorem compare_similarity_and_pass_bar_witness:
  "fst (compareScreenshots demo_machine ''a.png'' ''b.png'' (round_double (1 / 10)) demo_world)
     = ok \<lparr>baseImagePath = ''a.png'', currentImagePath = ''b.png'',
            diffImagePath = ''b-diff.png'', similarity = Fin 85,
            pixelDifference = 3, passed = False\<rparr>
   \<and> num_mul (num_div (num_sub (num_mul (Fin 4) (Fin 5)) (Fin 3)) (num_mul (Fin 4) (Fin 5))) (Fin 100)
       = Fin 85
   \<and> num_sub (Fin 100) (num_mul (Fin (round_double (1 / 10))) (Fin 100)) = Fin 90"
proof -
  have sim: "num_mul (num_div (num_sub (num_mul (Fin 4) (Fin 5)) (Fin 3)) (num_mul (Fin 4) (Fin 5)))
      (Fin 100) = Fin 85"
    by (simp add: double_defs)
  have bar: "num_sub (Fin 100) (num_mul (Fin (round_double (1 / 10))) (Fin 100)) = Fin 90"
    by (simp add: double_defs)
  have "\<exists>c. fst (compareScreenshots demo_machine ''a.png'' ''b.png'' (round_double (1 / 10)) demo_world) = ok c
           \<and> pixelDifference c = 3
           \<and> similarity c
               = num_mul (num_div (num_sub (num_mul (Fin (real 4)) (Fin (real 5))) (Fin (real 3)))
                   (num_mul (Fin (real 4)) (Fin (real 5)))) (Fin 100)
           \<and> (ScreenshotComparison.passed c \<longleftrightarrow>
                num_ge (num_mul (num_div (num_sub (num_mul (Fin (real 4)) (Fin (real 5))) (Fin (real 3)))
                   (num_mul (Fin (real 4)) (Fin (real 5)))) (Fin 100))
                       (num_sub (Fin 100) (num_mul (Fin (round_double (1 / 10))) (Fin 100))))
           \<and> ((4::nat) = 0 \<or> (5::nat) = 0 \<longrightarrow>
                (3::nat) = 0 \<longrightarrow> similarity c = NaN \<and> \<not> ScreenshotComparison.passed c)
           \<and> (0 < (4::nat) * 5 \<longrightarrow> (4::nat) * 5 < 2 ^ 53 \<longrightarrow>
                (3::nat) = 0 \<longrightarrow> similarity c = Fin 100)"
    using compare_similarity_and_pass_bar
          [where m = demo_machine and w = demo_world and basePath = "''a.png''"
             and currentPath = "''b.png''" and baseBytes = "''A''" and currentBytes = "''B''"
             and baseImage = demo_png and currentImage = demo_png and diffData = "[]"
             and d = 3 and threshold = "round_double (1 / 10)"
             and totalPixels = "num_mul (Fin (real 4)) (Fin (real 5))"]
    by (simp add: demo_machine_def demo_world_def demo_png_def)
  then obtain c where
    c: "fst (compareScreenshots demo_machine ''a.png'' ''b.png'' (round_double (1 / 10)) demo_world) = ok c"
    and "pixelDifference c = 3" and "similarity c = Fin 85" and "\<not> ScreenshotComparison.passed c"
    using sim bar by auto
  moreover have "baseImagePath c = ''a.png'' \<and> currentImagePath c = ''b.png''
      \<and> diffImagePath c = ''b-diff.png''"
    using c by (auto simp: compareScreenshots_def demo_machine_def demo_world_def demo_png_def
        ok_def Let_def split: if_splits option.splits)
  ultimately have "c = \<lparr>baseImagePath = ''a.png'', currentImagePath = ''b.png'',
            diffImagePath = ''b-diff.png'', similarity = Fin 85,
            pixelDifference = 3, passed = False\<rparr>"
    by (cases c) simp
  with c sim bar show ?thesis by simp
qed

text \<open>
  Claim C9. In a visual test run whose capture succeeds and for which no baseline image
  exists, the candidate screenshot is copied into the baseline slot, \<^verbatim>\<open>pixelmatch\<close> is
  not called, no diff or comparison is recorded, and the test result is reported as passed.
\<close>

theorem first_run_establishes_baseline:
  assumes "mkdir_throws m baselineDir = None" and "context_throws m = None"
    and "page_shot m url selector = Inr shot"
    and "basePath = path_join m baselineDir (testName @ ''-baseline.png'')"
    and "currentPath = path_join m baselineDir (testName @ ''-current.png'')"
    and "basePath \<noteq> currentPath" and "currentPath \<noteq> []"
    and "files w basePath = None"
    and "copy_throws m currentPath basePath = None"
  shows "fst (runVisualTest m testName url selector baselineDir elapsed w)
           = ok (Inr \<lparr>TestResult.name = testName, passed = True, error = None,
                       screenshots = None, duration = elapsed\<rparr>)
       \<and> files (snd (runVisualTest m testName url selector baselineDir elapsed w)) basePath
           = Some shot
       \<and> files (snd (runVisualTest m testName url selector baselineDir elapsed w)) currentPath
           = Some shot
       \<and> compared (snd (runVisualTest m testName url selector baselineDir elapsed w))
           = compared w"
proof -
  have "captureScreenshot m url selector (Some currentPath) w
          = Inr (ok \<lparr>screenshotPath = currentPath\<rparr>,
                 w\<lparr>files := (files w)(currentPath \<mapsto> shot)\<rparr>)"
    using assms(2,3,7) by (simp add: captureScreenshot_def)
  then show ?thesis
    using assms by (simp add: runVisualTest_def ok_def Let_def)
qed

theorem first_run_establishes_baseline_witness:
  "fst (runVisualTest demo_machine ''HeroButton-visual-test'' ''http://localhost:3000'' None
          ''out/visual-tests'' 40 demo_world)
     = ok (Inr \<lparr>TestResult.name = ''HeroButton-visual-test'', passed = True, error = None,
                 screenshots = None, duration = 40\<rparr>)
   \<and> files (snd (runVisualTest demo_machine ''HeroButton-visual-test'' ''http://localhost:3000''
          None ''out/visual-tests'' 40 demo_world))
        ''out/visual-tests/HeroButton-visual-test-baseline.png'' = Some ''shot''
   \<and> compared (snd (runVisualTest demo_machine ''HeroButton-visual-test''
          ''http://localhost:3000'' None ''out/visual-tests'' 40 demo_world)) = 0
   \<and> files demo_world ''out/visual-tests/HeroButton-visual-test-baseline.png'' = None"
  using first_run_establishes_baseline
    [where m = demo_machine and baselineDir = "''out/visual-tests''"
       and url = "''http://localhost:3000''" and selector = None and shot = "''shot''"
       and basePath = "''out/visual-tests/HeroButton-visual-test-baseline.png''"
       and testName = "''HeroButton-visual-test''"
       and currentPath = "''out/visual-tests/HeroButton-visual-test-current.png''"
       and w = demo_world and elapsed = 40]
  by (simp add: demo_machine_def demo_world_def)


section \<open>Properties of commit creation\<close>

lemma createBlobs_objects: "objs \<subseteq> snd (snd (createBlobs fl fileList objs))"
proof (induction fileList arbitrary: objs)
  case Nil
  show ?case by simp
next
  case (Cons f0 rest)
  from Cons [of objs] Cons [of "insert (BlobSha (CommitFile.content f0)) objs"]
  show ?case by (auto split: option.splits prod.splits)
qed

lemma createBlobs_all:
  "createBlobs fl fileList objs = ([], blobs, objs') \<Longrightarrow>
   map (\<lambda>(p, b). (p, ''100644'', ''blob'', b)) blobs = entries_of fileList
   \<and> (\<forall>f \<in> set fileList. BlobSha (CommitFile.content f) \<in> objs')"
proof (induction fileList arbitrary: objs blobs objs')
  case Nil
  then show ?case by (simp add: entries_of_def)
next
  case (Cons f0 rest)
  from Cons.prems obtain blobs0 where
    run: "createBlobs fl rest (insert (BlobSha (CommitFile.content f0)) objs) = ([], blobs0, objs')"
    and blobs: "blobs = (path f0, BlobSha (CommitFile.content f0)) # blobs0"
    by (auto split: option.splits prod.splits)
  from createBlobs_objects [of "insert (BlobSha (CommitFile.content f0)) objs" fl rest] run
  have "BlobSha (CommitFile.content f0) \<in> objs'" by auto
  with Cons.IH [OF run] blobs show ?case by (simp add: entries_of_def)
qed

lemma caught_failure: "\<not> success (caught x :: 'a ToolResult)"
  by (cases x) (simp_all add: failure_def)

text \<open>
  Claim C1. A commit request that fails at any step (reading the ref or its commit, any
  blob, the tree, the commit object, the ref update) returns a failure and leaves every
  ref where it was: no ref has moved, and no stored object was removed, so what the branch
  head reaches is what it reached before. A request that succeeds moves the branch ref
  exactly once, from the old head to a new commit on top of it whose tree, built on the
  old head's tree, has one entry for each requested file, each naming the stored blob of
  that file's content.
\<close>

theorem createCommit_all_or_nothing:
  "(\<not> success (fst (createCommit fl arrival branchName fileList msg s)) \<longrightarrow>
      refs (snd (createCommit fl arrival branchName fileList msg s)) = refs s
    \<and> ref_moves (snd (createCommit fl arrival branchName fileList msg s)) = ref_moves s
    \<and> objects s \<subseteq> objects (snd (createCommit fl arrival branchName fileList msg s)))
 \<and> (success (fst (createCommit fl arrival branchName fileList msg s)) \<longrightarrow>
      (\<exists>m0 baseTree parents0.
         refs s (''heads/'' @ branchName) = Some (CommitSha m0 baseTree parents0)
       \<and> fst (createCommit fl arrival branchName fileList msg s)
           = ok \<lparr>CommitResult.commitSha =
                   CommitSha msg (TreeSha (Some baseTree) (entries_of fileList))
                     [CommitSha m0 baseTree parents0],
                 message = msg\<rparr>
       \<and> refs (snd (createCommit fl arrival branchName fileList msg s))
           = (refs s)(''heads/'' @ branchName \<mapsto>
                CommitSha msg (TreeSha (Some baseTree) (entries_of fileList))
                  [CommitSha m0 baseTree parents0])
       \<and> ref_moves (snd (createCommit fl arrival branchName fileList msg s)) = Suc (ref_moves s)
       \<and> CommitSha msg (TreeSha (Some baseTree) (entries_of fileList))
            [CommitSha m0 baseTree parents0]
           \<in> objects (snd (createCommit fl arrival branchName fileList msg s))
       \<and> TreeSha (Some baseTree) (entries_of fileList)
           \<in> objects (snd (createCommit fl arrival branchName fileList msg s))
       \<and> (\<forall>f \<in> set fileList.
            BlobSha (CommitFile.content f) \<in> objects (snd (createCommit fl arrival branchName fileList msg s)))
       \<and> objects s \<subseteq> objects (snd (createCommit fl arrival branchName fileList msg s))))"
proof -
  obtain err blobs objs1 where run: "createBlobs fl fileList (objects s) = (err, blobs, objs1)"
    by (cases "createBlobs fl fileList (objects s)") auto
  have sub: "objects s \<subseteq> objs1"
    using createBlobs_objects [of "objects s" fl fileList] run by simp
  show ?thesis
  proof (cases err)
    case (Cons x errs)
    with run sub show ?thesis
      by (auto simp: createCommit_def Let_def caught_failure ok_def
               split: option.splits sha.splits)
  next
    case Nil
    with run have all: "map (\<lambda>(p, b). (p, ''100644'', ''blob'', b)) blobs = entries_of fileList"
      "\<forall>f \<in> set fileList. BlobSha (CommitFile.content f) \<in> objs1"
      using createBlobs_all [of fl fileList "objects s" blobs objs1] by simp_all
    with run Nil sub show ?thesis
      by (auto simp: createCommit_def Let_def caught_failure ok_def
               split: option.splits sha.splits)
  qed
qed


theorem createCommit_all_or_nothing_witness:
  "\<not> success (fst (createCommit second_blob_fails 0 ''feature/herobutton'' demo_files ''feat: add'' demo_repo))
   \<and> refs (snd (createCommit second_blob_fails 0 ''feature/herobutton'' demo_files ''feat: add'' demo_repo))
       = refs demo_repo
   \<and> ref_moves (snd (createCommit second_blob_fails 0 ''feature/herobutton'' demo_files ''feat: add'' demo_repo)) = 0
   \<and> success (fst (createCommit no_faults 0 ''feature/herobutton'' demo_files ''feat: add'' demo_repo))
   \<and> refs (snd (createCommit no_faults 0 ''feature/herobutton'' demo_files ''feat: add'' demo_repo))
        ''heads/feature/herobutton''
       = Some (CommitSha ''feat: add'' (TreeSha (Some (TreeSha None [])) (entries_of demo_files))
                 [demo_head])
   \<and> ref_moves (snd (createCommit no_faults 0 ''feature/herobutton'' demo_files ''feat: add'' demo_repo)) = 1"
proof -
  have bad: "\<not> success (fst (createCommit second_blob_fails 0 ''feature/herobutton'' demo_files
      ''feat: add'' demo_repo))"
    by (simp add: createCommit_def second_blob_fails_def demo_files_def demo_repo_def
        demo_head_def failure_def Let_def)
  have good: "success (fst (createCommit no_faults 0 ''feature/herobutton'' demo_files
      ''feat: add'' demo_repo))"
    by (simp add: createCommit_def no_faults_def demo_files_def demo_repo_def
        demo_head_def ok_def Let_def)
  have head: "refs demo_repo ''heads/feature/herobutton'' = Some demo_head"
    by (simp add: demo_repo_def)
  show ?thesis
    using bad good head
      createCommit_all_or_nothing
        [of second_blob_fails 0 "''feature/herobutton''" demo_files "''feat: add''" demo_repo]
      createCommit_all_or_nothing
        [of no_faults 0 "''feature/herobutton''" demo_files "''feat: add''" demo_repo]
    by (auto simp: demo_head_def demo_repo_def)
qed


section \<open>Properties of the token extraction\<close>

text \<open>
  Claim C8, at a document that is one square frame of 100 by 100 pixels: the width is
  stored under the key w-100 and the height under the key h-100, so the spacing list of
  the aggregate is [100, 100], which has a duplicate.
\<close>

theorem spacing_duplicate_for_square_frame:
  "DesignTokens.spacing (extractDesignTokensOptimized square_frame) = [100, 100]
   \<and> \<not> distinct (DesignTokens.spacing (extractDesignTokensOptimized square_frame))"
  by (simp add: extractDesignTokensOptimized_def square_frame_def empty_tokenCache_def
      processNodeForTokens_def math_round_def map_values_def Let_def)


text \<open>
  The earlier extraction keeps its spacing list free of duplicates on every document; on
  the square frame it returns the one value.
\<close>

lemma set_add_distinct: "distinct xs \<Longrightarrow> distinct (set_add x xs)"
  by (simp add: set_add_def)

lemma add_fill_color_spacing: "TokenSets.spacing (add_fill_color p ts) = TokenSets.spacing ts"
  by (cases "(p, ts)" rule: add_fill_color.cases) (simp_all add: Let_def)

lemma fold_add_fill_color_spacing:
  "TokenSets.spacing (fold add_fill_color fs ts) = TokenSets.spacing ts"
  by (induction fs arbitrary: ts) (simp_all add: add_fill_color_spacing)

lemma collect_tokens_distinct:
  "distinct (TokenSets.spacing ts) \<Longrightarrow> distinct (TokenSets.spacing (collect_tokens n ts))"
  by (auto simp: collect_tokens_def Let_def fold_add_fill_color_spacing set_add_distinct
           split: option.splits)

lemma traverseNode_distinct:
  "distinct (TokenSets.spacing ts) \<Longrightarrow>
   distinct (TokenSets.spacing (traverseNode collect_tokens n ts))"
proof (induction n arbitrary: ts)
  case (Node f ff b c cs)
  have "distinct (TokenSets.spacing acc) \<Longrightarrow> set xs \<subseteq> set cs \<Longrightarrow>
        distinct (TokenSets.spacing (fold (traverseNode collect_tokens) xs acc))" for xs acc
  proof (induction xs arbitrary: acc)
    case Nil
    then show ?case by simp
  next
    case (Cons x xs)
    from Cons.prems have "x \<in> set cs" by simp
    from Node.IH [OF this Cons.prems(1)] Cons.IH Cons.prems(2) show ?case by simp
  qed
  from this [OF collect_tokens_distinct [OF Node.prems], of cs] show ?case by simp
qed

lemma earlier_extraction_spacing_distinct:
  "distinct (TokenSets.spacing (extractDesignTokens document))"
  using traverseNode_distinct [of "\<lparr>colors = [], fonts = [], spacing = [], borderRadius = []\<rparr>" document]
  by (simp add: extractDesignTokens_def Let_def)

lemma earlier_extraction_square_frame:
  "TokenSets.spacing (extractDesignTokens square_frame) = [100]"
  by (simp add: extractDesignTokens_def square_frame_def collect_tokens_def set_add_def Let_def)

section \<open>Properties of the browser context pool\<close>

text \<open>
  Claim C2, at six callers that call \<^verbatim>\<open>getContext\<close> together on a fresh adapter: each
  passes the test \<^verbatim>\<open>activeContexts < maxContexts\<close> before any of them has counted its
  context, so six contexts are created and open at once, all six leased, and the lease
  count is 6, above the cap of 5.
\<close>

theorem six_concurrent_acquires_exceed_cap:
  "map_option live (run six_callers fresh_adapter) = Some [0, 1, 2, 3, 4, 5]
   \<and> map_option lease_count (run six_callers fresh_adapter) = Some (Some 6)
   \<and> map_option idle_contexts (run six_callers fresh_adapter) = Some (Some [])
   \<and> map_option (caller 0) (run six_callers fresh_adapter) = Some (Holding 0)
   \<and> map_option (caller 1) (run six_callers fresh_adapter) = Some (Holding 1)
   \<and> map_option (caller 2) (run six_callers fresh_adapter) = Some (Holding 2)
   \<and> map_option (caller 3) (run six_callers fresh_adapter) = Some (Holding 3)
   \<and> map_option (caller 4) (run six_callers fresh_adapter) = Some (Holding 4)
   \<and> map_option (caller 5) (run six_callers fresh_adapter) = Some (Holding 5)
   \<and> map_option launch_count (run six_callers fresh_adapter) = Some 1
   \<and> \<not> int (length [0::nat, 1, 2, 3, 4, 5]) \<le> maxContexts"
  by (simp add: six_callers_def fresh_adapter_def step_def initialize_def getContext_body_def
      maxContexts_def lease_count_def idle_contexts_def caller_def launch_count_def)

text \<open>
  The second half of claim C2 holds: a released context is idle in the pool, and the next
  caller gets that same context, with no launch and no new context.
\<close>

lemma released_context_is_acquired_again:
  assumes "callers s t = Holding c" and "browserPool s = Some pool" and "callers s u = Idle"
    and "u \<noteq> t"
  shows "\<exists>s'. run [Release t, Call u, Resume u] s = Some s'
           \<and> callers s' u = Holding c \<and> launches s' = launches s \<and> created s' = created s
           \<and> live s' = live s"
  using assms by (simp add: step_def initialize_def getContext_body_def)

text \<open>
  Claim C3 as stated fails at this run: a caller acquires and releases, the pool is shut
  down, and a second caller then acquires. The engine is launched a second time and the
  second caller holds a context; it has not failed.
\<close>

theorem acquire_after_close_relaunches_example:
  "map_option launch_count (run acquire_after_close fresh_adapter) = Some 2
   \<and> map_option (caller 1) (run acquire_after_close fresh_adapter) = Some (Holding 1)"
  by (simp add: acquire_after_close_def fresh_adapter_def step_def initialize_def
      getContext_body_def maxContexts_def caller_def launch_count_def)

lemma acquire_without_pool_awaits_a_launch:
  assumes "browserPool s = None" and "callers s t = Idle"
  shows "\<exists>s' p. step (Call t) s = Some s' \<and> callers s' t = AwaitInit (Some p)
           \<and> initializationPromise s' = Some p
           \<and> (initializationPromise s = None \<longrightarrow>
                  p = length (launches s) \<and> launches s' = launches s @ [Launching])
           \<and> (\<forall>q. initializationPromise s = Some q \<longrightarrow> p = q \<and> launches s' = launches s)"
  using assms by (cases "initializationPromise s") (auto simp: step_def initialize_def)

text \<open>
  Claim C3, amended. Shutdown sets the adapter's pool and its initialization promise to
  null, closes the open contexts, and leaves no mark that the adapter was closed. A
  \<^verbatim>\<open>getContext\<close> call made right after it, by a caller that is not in the middle of
  one, does not fail fast: it starts a launch of the engine at once, one more call of
  \<^verbatim>\<open>chromium.launch\<close>, and waits for it. If nothing else happens in between, then when
  that launch completes the caller resumes, asks the new engine for a context, and holds
  a newly created context of the new pool.
\<close>

theorem acquire_after_close_relaunches:
  assumes "callers s t = Idle"
  shows "\<exists>s1 s2 s'. step Close s = Some s1
           \<and> browserPool s1 = None \<and> initializationPromise s1 = None
           \<and> launches s1 = launches s
           \<and> (browserPool s \<noteq> None \<longrightarrow> live s1 = [])
           \<and> step (Call t) s1 = Some s2
           \<and> launches s2 = launches s @ [Launching]
           \<and> initializationPromise s2 = Some (length (launches s))
           \<and> callers s2 t = AwaitInit (Some (length (launches s)))
           \<and> run [LaunchDone (length (launches s)), Resume t, Resume t] s2 = Some s'
           \<and> launches s' = launches s @ [Launched]
           \<and> callers s' t = Holding (created s)
           \<and> live s' = live s1 @ [created s]
           \<and> created s' = Suc (created s)
           \<and> browserPool s' = Some \<lparr>browser = length (launches s), contexts = [],
                                     activeContexts = 1\<rparr>"
  using assms
  by (cases "browserPool s")
     (simp_all add: step_def initialize_def getContext_body_def maxContexts_def nth_append)

theorem acquire_after_close_relaunches_witness:
  "run reach_adapter_in_use fresh_adapter = Some adapter_in_use
   \<and> callers adapter_in_use 7 = Idle
   \<and> browserPool adapter_in_use \<noteq> None
   \<and> map_option browserPool (step Close adapter_in_use) = Some None
   \<and> map_option live (step Close adapter_in_use) = Some []
   \<and> map_option launches (run [Close, Call 7] adapter_in_use) = Some [Launched, Launching]
   \<and> map_option (caller 7) (run [Close, Call 7, LaunchDone 1, Resume 7, Resume 7] adapter_in_use)
       = Some (Holding 2)
   \<and> map_option launches (run [Close, Call 7, LaunchDone 1, Resume 7, Resume 7] adapter_in_use)
       = Some [Launched, Launched]
   \<and> map_option live (run [Close, Call 7, LaunchDone 1, Resume 7, Resume 7] adapter_in_use)
       = Some [2]"
proof -
  have r: "run reach_adapter_in_use fresh_adapter = Some adapter_in_use"
    by (simp add: reach_adapter_in_use_def fresh_adapter_def adapter_in_use_def step_def
        initialize_def getContext_body_def maxContexts_def fun_eq_iff)
  have h: "callers adapter_in_use 7 = Idle"
    by (simp add: adapter_in_use_def)
  have p: "browserPool adapter_in_use \<noteq> None" "launches adapter_in_use = [Launched]"
    "created adapter_in_use = 2"
    by (simp_all add: adapter_in_use_def)
  from acquire_after_close_relaunches [OF h] obtain s1 s2 s' where
    "step Close adapter_in_use = Some s1" "browserPool s1 = None" "live s1 = []"
    "step (Call 7) s1 = Some s2" "launches s2 = [Launched, Launching]"
    "run [LaunchDone 1, Resume 7, Resume 7] s2 = Some s'"
    "launches s' = [Launched, Launched]" "callers s' 7 = Holding 2" "live s' = [2]"
    using p by auto
  with r h p show ?thesis
    by (simp add: caller_def)
qed


section \<open>Properties of the design locators\<close>

lemma hex_round: "m < 16 \<Longrightarrow> hex_val (hex_digit m) = Some m"
proof -
  assume "m < 16"
  then have "m = 0 \<or> m = 1 \<or> m = 2 \<or> m = 3 \<or> m = 4 \<or> m = 5 \<or> m = 6 \<or> m = 7
      \<or> m = 8 \<or> m = 9 \<or> m = 10 \<or> m = 11 \<or> m = 12 \<or> m = 13 \<or> m = 14 \<or> m = 15"
    by arith
  then show ?thesis
    by (auto simp: hex_val_def hex_digit_def)
qed

lemma hex_digit_not_amp: "m < 16 \<Longrightarrow> hex_digit m \<noteq> CHR ''&''"
proof -
  assume "m < 16"
  then have "m = 0 \<or> m = 1 \<or> m = 2 \<or> m = 3 \<or> m = 4 \<or> m = 5 \<or> m = 6 \<or> m = 7
      \<or> m = 8 \<or> m = 9 \<or> m = 10 \<or> m = 11 \<or> m = 12 \<or> m = 13 \<or> m = 14 \<or> m = 15"
    by arith
  then show ?thesis
    by (auto simp: hex_digit_def)
qed

lemma unreserved_not_special: "unreserved c \<Longrightarrow> c \<noteq> CHR ''%'' \<and> c \<noteq> CHR ''&''"
  by (auto simp: unreserved_def)

lemma decode_escape:
  assumes "is_ascii c"
  shows "decodeURIComponent (CHR ''%'' # hex_digit (of_char c div 16) # hex_digit (of_char c mod 16) # rest)
         = (case decodeURIComponent rest of Ok r \<Rightarrow> Ok (c # r) | e \<Rightarrow> e)"
proof -
  let ?n = "of_char c :: nat"
  have n: "?n < 128" using assms by (simp add: is_ascii_def)
  then have a: "hex_val (hex_digit (?n div 16)) = Some (?n div 16)"
    by (intro hex_round) auto
  have b: "hex_val (hex_digit (?n mod 16)) = Some (?n mod 16)"
    by (intro hex_round) auto
  have c: "char_of (16 * (?n div 16) + ?n mod 16) = c" by simp
  show ?thesis using n a b c by (simp split: js.splits)
qed

lemma decode_encode: "encodeURIComponent s = Ok e \<Longrightarrow> decodeURIComponent e = Ok s"
proof (induction s arbitrary: e)
  case Nil then show ?case by simp
next
  case (Cons c cs)
  from Cons.prems obtain r where asc: "is_ascii c" and r: "encodeURIComponent cs = Ok r"
    and e: "e = (if unreserved c then [c]
                    else [CHR ''%'', hex_digit (of_char c div 16), hex_digit (of_char c mod 16)]) @ r"
    by (auto split: if_splits js.splits)
  from Cons.IH [OF r] have d: "decodeURIComponent r = Ok cs" .
  show ?case
  proof (cases "unreserved c")
    case True
    with e d asc unreserved_not_special [of c] show ?thesis by simp
  next
    case False
    with e d decode_escape [OF asc, of r] show ?thesis by simp
  qed
qed

lemma encode_no_amp: "encodeURIComponent s = Ok e \<Longrightarrow> CHR ''&'' \<notin> set e"
proof (induction s arbitrary: e)
  case Nil then show ?case by simp
next
  case (Cons c cs)
  from Cons.prems obtain r where asc: "is_ascii c" and r: "encodeURIComponent cs = Ok r"
    and e: "e = (if unreserved c then [c]
                    else [CHR ''%'', hex_digit (of_char c div 16), hex_digit (of_char c mod 16)]) @ r"
    by (auto split: if_splits js.splits)
  have "hex_digit (of_char c div 16) \<noteq> CHR ''&''" 
    using asc by (intro hex_digit_not_amp) (simp add: is_ascii_def)
  moreover have "hex_digit (of_char c mod 16) \<noteq> CHR ''&''"
    by (intro hex_digit_not_amp) simp
  ultimately show ?case using Cons.IH [OF r] e unreserved_not_special [of c] by auto
qed

lemma encode_nonempty: "encodeURIComponent s = Ok e \<Longrightarrow> s \<noteq> [] \<Longrightarrow> e \<noteq> []"
  by (cases s) (auto split: if_splits js.splits)

lemma encode_ascii: "list_all is_ascii s \<Longrightarrow> \<exists>e. encodeURIComponent s = Ok e"
  by (induction s) auto

lemma strip_prefix_append_none:
  "strip_prefix p xs = None \<Longrightarrow> length p \<le> length xs \<Longrightarrow> strip_prefix p (xs @ ys) = None"
  by (induction p xs rule: strip_prefix.induct) (auto split: if_splits)

lemma strip_prefix_append_some:
  "strip_prefix p xs = Some r \<Longrightarrow> strip_prefix p (xs @ ys) = Some (r @ ys)"
  by (induction p xs rule: strip_prefix.induct) (auto split: if_splits)

lemma strip_prefix_length:
  "strip_prefix p xs = Some r \<Longrightarrow> length xs = length p + length r"
  by (induction p xs rule: strip_prefix.induct) (auto split: if_splits)

lemma takeWhile_group:
  assumes "CHR ''&'' \<notin> set enc" and "post = [] \<or> hd post = CHR ''&''"
  shows "takeWhile (\<lambda>x. x \<noteq> CHR ''&'') (enc @ post) = enc"
proof -
  have "takeWhile (\<lambda>x. x \<noteq> CHR ''&'') post = []"
    using assms(2) by (cases post) auto
  moreover have "takeWhile (\<lambda>x. x \<noteq> CHR ''&'') (enc @ post)
                   = enc @ takeWhile (\<lambda>x. x \<noteq> CHR ''&'') post"
    using assms(1) by (intro takeWhile_append2) auto
  ultimately show ?thesis by simp
qed

lemma node_id_match_found:
  assumes "node_id_match (pre @ ''node-id='') = None"
    and "enc \<noteq> []" and "CHR ''&'' \<notin> set enc" and "post = [] \<or> hd post = CHR ''&''"
  shows "node_id_match (pre @ ''node-id='' @ enc @ post) = Some enc"
  using assms(1)
proof (induction pre)
  case Nil
  show ?case using takeWhile_group [OF assms(3,4)] assms(2) by simp
next
  case (Cons c p)
  let ?xs = "(c # p) @ ''node-id=''"
  have len: "length ''node-id='' \<le> length ?xs" by simp
  have split: "(c # p) @ ''node-id='' @ enc @ post = ?xs @ (enc @ post)" by simp
  show ?case
  proof (cases "strip_prefix ''node-id='' ?xs")
    case None
    with Cons.prems have rest: "node_id_match (p @ ''node-id='') = None" by simp
    from strip_prefix_append_none [OF None len, of "enc @ post"]
    have "strip_prefix ''node-id='' ((c # p) @ ''node-id='' @ enc @ post) = None"
      by simp
    then have "node_id_match ((c # p) @ ''node-id='' @ enc @ post)
                 = node_id_match (p @ ''node-id='' @ enc @ post)"
      by simp
    with Cons.IH [OF rest] show ?thesis by simp
  next
    case (Some r)
    with Cons.prems have tw: "takeWhile (\<lambda>x. x \<noteq> CHR ''&'') r = []"
      and rest: "node_id_match (p @ ''node-id='') = None"
      by (auto split: if_splits)
    from strip_prefix_length [OF Some] have "r \<noteq> []" by auto
    with tw have "takeWhile (\<lambda>x. x \<noteq> CHR ''&'') (r @ (enc @ post)) = []"
      by (cases r) (auto split: if_splits)
    moreover from strip_prefix_append_some [OF Some, of "enc @ post"]
    have "strip_prefix ''node-id='' ((c # p) @ ''node-id='' @ enc @ post) = Some (r @ (enc @ post))"
      by simp
    ultimately have "node_id_match ((c # p) @ ''node-id='' @ enc @ post)
                 = node_id_match (p @ ''node-id='' @ enc @ post)"
      by simp
    with Cons.IH [OF rest] show ?thesis by simp
  qed
qed

lemma digits_sep_digits_chars:
  assumes "digits_sep_digits sep s"
  shows "s \<noteq> [] \<and> (\<forall>c \<in> set s. is_digit c \<or> sep c)"
proof -
  from assms obtain c r where d: "dropWhile is_digit s = c # r" and c: "sep c"
    and r: "list_all is_digit r"
    by (auto simp: digits_sep_digits_def split: list.splits)
  have "s = takeWhile is_digit s @ c # r" using d by (metis takeWhile_dropWhile_id)
  then have "set s = set (takeWhile is_digit s) \<union> insert c (set r)"
    by (metis set_append list.simps(15))
  moreover have "\<forall>x \<in> set (takeWhile is_digit s). is_digit x"
    by (auto dest: set_takeWhileD)
  ultimately show ?thesis using c r d by (auto simp: list_all_iff)
qed

lemma is_digit_facts: "is_digit c \<Longrightarrow> is_ascii c \<and> c \<noteq> CHR ''%'' \<and> c \<noteq> CHR ''n''"
  by (auto simp: is_digit_def is_ascii_def)

lemma node_id_chars:
  assumes "looks_like_node_id n"
  shows "n \<noteq> [] \<and> list_all is_ascii n \<and> CHR ''%'' \<notin> set n \<and> CHR ''n'' \<notin> set n"
proof -
  from digits_sep_digits_chars [OF assms [unfolded looks_like_node_id_def]]
  have ne: "n \<noteq> []" and cs: "\<forall>c \<in> set n. is_digit c \<or> c = CHR ''-'' \<or> c = CHR '':''"
    by simp_all
  have "is_ascii c \<and> c \<noteq> CHR ''%'' \<and> c \<noteq> CHR ''n''" if "c \<in> set n" for c
  proof -
    from cs that have "is_digit c \<or> c = CHR ''-'' \<or> c = CHR '':''" by blast
    then show ?thesis
    proof (elim disjE)
      assume "is_digit c" then show ?thesis by (rule is_digit_facts)
    next
      assume "c = CHR ''-''" then show ?thesis by (simp add: is_ascii_def)
    next
      assume "c = CHR '':''" then show ?thesis by (simp add: is_ascii_def)
    qed
  qed
  with ne show ?thesis by (auto simp: list_all_iff)
qed

lemma replace_all_id: "CHR ''%'' \<notin> set s \<Longrightarrow> replace_all ''%3A'' rep s = s"
  by (induction s) auto

lemma isValidNodeId_looks: "isValidNodeId n \<Longrightarrow> looks_like_node_id n"
  unfolding isValidNodeId_def looks_like_node_id_def digits_sep_digits_def
  by (cases "dropWhile is_digit n") simp_all

text \<open>
  For a node id in either notation of the parser (digits, a colon or a dash, digits) and a
  locator that carries the encoder's own encoding of it, extraction gives the node id back
  and a created URL carries the same encoded id.
\<close>

lemma valid_node_id_round_trip:
  assumes "looks_like_node_id nodeId"
    and "node_id_match (pre @ ''node-id='') = None"
    and "post = [] \<or> hd post = CHR ''&''"
  shows "\<exists>enc. encodeURIComponent nodeId = Ok enc
           \<and> extractNodeId (pre @ ''node-id='' @ enc @ post) = Ok (Some nodeId)
           \<and> createFigmaUrl fileId (Some nodeId) fileName
               = Ok (''https://www.figma.com/file/'' @ fileId @ ''/''
                     @ (case truthy fileName of None \<Rightarrow> ''design'' | Some n \<Rightarrow> n)
                     @ ''?node-id='' @ enc)"
proof -
  from node_id_chars [OF assms(1)] have ne: "nodeId \<noteq> []" and asc: "list_all is_ascii nodeId"
    and pct: "CHR ''%'' \<notin> set nodeId" by auto
  from encode_ascii [OF asc] obtain enc where enc: "encodeURIComponent nodeId = Ok enc" ..
  have m: "node_id_match (pre @ ''node-id='' @ enc @ post) = Some enc"
    using node_id_match_found [OF assms(2) encode_nonempty [OF enc ne] encode_no_amp [OF enc] assms(3)] .
  have "CHR ''n'' \<in> set (pre @ ''node-id='' @ enc @ post)" by simp
  then have bare: "\<not> looks_like_node_id (pre @ ''node-id='' @ enc @ post)"
    using node_id_chars by blast
  have "decodeNodeId enc = Ok nodeId"
    using decode_encode [OF enc] replace_all_id [OF pct] by (simp add: decodeNodeId_def)
  with m bare have "extractNodeId (pre @ ''node-id='' @ enc @ post) = Ok (Some nodeId)"
    by (simp add: extractNodeId_def)
  moreover have "createFigmaUrl fileId (Some nodeId) fileName
               = Ok (''https://www.figma.com/file/'' @ fileId @ ''/''
                     @ (case truthy fileName of None \<Rightarrow> ''design'' | Some n \<Rightarrow> n)
                     @ ''?node-id='' @ enc)"
    using enc ne by (simp add: createFigmaUrl_def truthy_def)
  ultimately show ?thesis using enc by blast
qed

lemma hex_val_less: "hex_val h = Some a \<Longrightarrow> a < 16"
  by (auto simp: hex_val_def Let_def split: if_splits)

lemma unreserved_3A: "unreserved (CHR ''3'') \<and> unreserved (CHR ''A'')"
  by (simp add: unreserved_def)

text \<open>The first character of an encoding is unreserved exactly when that of the text is, and then the same.\<close>

lemma encode_head:
  assumes "encodeURIComponent t = Ok r" and "unreserved y"
  shows "(\<exists>u. r = y # u) \<longleftrightarrow> (\<exists>v. t = y # v)"
proof (cases t)
  case Nil
  with assms show ?thesis by simp
next
  case (Cons z t')
  with assms(1) obtain r' where r: "r = (if unreserved z then [z]
        else [CHR ''%'', hex_digit (of_char z div 16), hex_digit (of_char z mod 16)]) @ r'"
    by (auto split: if_splits js.splits)
  show ?thesis
  proof (cases "unreserved z")
    case True
    with r Cons show ?thesis by simp
  next
    case False
    with r Cons assms(2) unreserved_not_special [of y] show ?thesis by auto
  qed
qed

lemma encode_3A:
  assumes "encodeURIComponent d = Ok g"
  shows "strip_prefix ''3A'' g \<noteq> None \<longleftrightarrow> strip_prefix ''3A'' d \<noteq> None"
proof -
  have sp: "strip_prefix ''3A'' s \<noteq> None \<longleftrightarrow> (\<exists>u. s = CHR ''3'' # CHR ''A'' # u)" for s
    by (cases s; cases "tl s") (auto split: if_splits)
  show ?thesis
  proof (cases d)
    case Nil
    with assms show ?thesis by simp
  next
    case (Cons x t)
    with assms obtain r where rt: "encodeURIComponent t = Ok r"
      and g: "g = (if unreserved x then [x]
        else [CHR ''%'', hex_digit (of_char x div 16), hex_digit (of_char x mod 16)]) @ r"
      by (auto split: if_splits js.splits)
    from encode_head [OF rt, of "CHR ''A''"] unreserved_3A
    have hd: "(\<exists>u. r = CHR ''A'' # u) \<longleftrightarrow> (\<exists>v. t = CHR ''A'' # v)" by simp
    show ?thesis
    proof (cases "unreserved x")
      case True
      with g Cons hd show ?thesis unfolding sp by auto
    next
      case False
      then have "x \<noteq> CHR ''3''" using unreserved_3A by auto
      with False g Cons show ?thesis unfolding sp by auto
    qed
  qed
qed

lemma replace_all_other:
  "c \<noteq> CHR ''%'' \<Longrightarrow> replace_all ''%3A'' rep (c # cs) = c # replace_all ''%3A'' rep cs"
  by simp

lemma replace_all_percent:
  "replace_all ''%3A'' rep (CHR ''%'' # cs)
     = (case strip_prefix ''3A'' cs of
          Some rest \<Rightarrow> rep @ replace_all ''%3A'' rep rest
        | None \<Rightarrow> CHR ''%'' # replace_all ''%3A'' rep cs)"
  by simp

lemma hex_parts:
  assumes "a < 16" and "b < 16"
  shows "(16 * a + b) div 16 = a" and "(16 * a + b) mod 16 = (b::nat)"
  using assms by auto

lemma normal_form_encodes:
  "normal_form g \<Longrightarrow>
   \<exists>d. encodeURIComponent d = Ok g \<and> replace_all ''%3A'' '':'' d = d"
proof (induction g rule: length_induct)
  case (1 g)
  show ?case
  proof (cases g)
    case Nil
    have "encodeURIComponent [] = Ok [] \<and> replace_all ''%3A'' '':'' [] = []" by simp
    with Nil show ?thesis by blast
  next
    case (Cons c cs)
    show ?thesis
    proof (cases "c = CHR ''%''")
      case False
      with "1.prems" Cons have c: "is_ascii c" "unreserved c" and n: "normal_form cs" by auto
      have "length cs < length g" using Cons by simp
      with "1.IH" n have "\<exists>d. encodeURIComponent d = Ok cs \<and> replace_all ''%3A'' '':'' d = d"
        by blast
      then obtain d where d: "encodeURIComponent d = Ok cs"
        "replace_all ''%3A'' '':'' d = d" by blast
      from c d False have "encodeURIComponent (c # d) = Ok (c # cs)
          \<and> replace_all ''%3A'' '':'' (c # d) = c # d"
        by (simp add: replace_all_other del: replace_all.simps)
      with Cons show ?thesis by blast
    next
      case True
      with "1.prems" Cons obtain h1 h2 rest a b where cs: "cs = h1 # h2 # rest"
        and h: "hex_val h1 = Some a" "hex_val h2 = Some b"
        and lt: "16 * a + b < 128" and res: "\<not> unreserved (char_of (16 * a + b))"
        and up: "h1 = hex_digit a" "h2 = hex_digit b"
        and no: "\<not> (a = 2 \<and> b = 5 \<and> strip_prefix ''3A'' rest \<noteq> None)"
        and n: "normal_form rest"
        by (auto split: list.splits option.splits)
      have "length rest < length g" using Cons cs by simp
      with "1.IH" n have "\<exists>d. encodeURIComponent d = Ok rest \<and> replace_all ''%3A'' '':'' d = d"
        by blast
      then obtain d where d: "encodeURIComponent d = Ok rest"
        "replace_all ''%3A'' '':'' d = d" by blast
      let ?x = "char_of (16 * a + b) :: char"
      have ab: "a < 16" "b < 16" using h by (auto dest: hex_val_less)
      have ofc: "(of_char ?x :: nat) = 16 * a + b" using lt by simp
      then have asc: "is_ascii ?x" using lt by (simp add: is_ascii_def)
      have enc: "encodeURIComponent (?x # d) = Ok (CHR ''%'' # h1 # h2 # rest)"
        using asc res d(1) ofc hex_parts [OF ab] up by simp
      have rep: "replace_all ''%3A'' '':'' (?x # d) = ?x # d"
      proof (cases "?x = CHR ''%''")
        case False
        then show ?thesis using d(2) by (simp add: replace_all_other del: replace_all.simps)
      next
        case True
        then have "(of_char ?x :: nat) = 37" by simp
        with ofc have "16 * a + b = 37" by simp
        with ab have "a = 2 \<and> b = 5" by arith
        with no have "strip_prefix ''3A'' rest = None" by simp
        with encode_3A [OF d(1)] have "strip_prefix ''3A'' d = None" by simp
        with True d(2) show ?thesis by (simp add: replace_all_percent del: replace_all.simps)
      qed
      from enc rep Cons cs True show ?thesis by blast
    qed
  qed
qed

lemma encoding_is_normal_form:
  "encodeURIComponent d = Ok g \<Longrightarrow> replace_all ''%3A'' '':'' d = d \<Longrightarrow> normal_form g"
proof (induction d arbitrary: g)
  case Nil
  then show ?case by simp
next
  case (Cons x t)
  from Cons.prems(1) obtain r where asc: "is_ascii x" and rt: "encodeURIComponent t = Ok r"
    and g: "g = (if unreserved x then [x]
        else [CHR ''%'', hex_digit (of_char x div 16), hex_digit (of_char x mod 16)]) @ r"
    by (auto split: if_splits js.splits)
  let ?n = "of_char x :: nat"
  have n: "?n < 128" using asc by (simp add: is_ascii_def)
  have rept: "replace_all ''%3A'' '':'' t = t \<and> (x = CHR ''%'' \<longrightarrow> strip_prefix ''3A'' t = None)"
  proof (cases "x = CHR ''%''")
    case False
    with Cons.prems(2) show ?thesis by (simp add: replace_all_other del: replace_all.simps)
  next
    case True
    with Cons.prems(2) show ?thesis
      by (cases "strip_prefix ''3A'' t") (simp_all add: replace_all_percent del: replace_all.simps)
  qed
  with Cons.IH [OF rt] have nr: "normal_form r" by simp
  show ?case
  proof (cases "unreserved x")
    case True
    with g nr asc unreserved_not_special [of x] show ?thesis by simp
  next
    case False
    have a: "hex_val (hex_digit (?n div 16)) = Some (?n div 16)"
      using n by (intro hex_round) auto
    have b: "hex_val (hex_digit (?n mod 16)) = Some (?n mod 16)"
      by (intro hex_round) simp
    have recompose: "16 * (?n div 16) + ?n mod 16 = ?n" by simp
    have "\<not> (?n div 16 = 2 \<and> ?n mod 16 = 5 \<and> strip_prefix ''3A'' r \<noteq> None)"
    proof
      assume h: "?n div 16 = 2 \<and> ?n mod 16 = 5 \<and> strip_prefix ''3A'' r \<noteq> None"
      then have "?n = 37" using recompose by simp
      then have "?n = of_char (CHR ''%'')" by simp
      then have "x = CHR ''%''" by (simp only: of_char_eq_iff)
      with rept have "strip_prefix ''3A'' t = None" by simp
      with encode_3A [OF rt] h show False by simp
    qed
    with False g nr a b recompose n show ?thesis by simp
  qed
qed

lemma round_trip_iff_normal_form:
  assumes "g \<noteq> []"
  shows "(\<exists>n. decodeNodeId g = Ok n \<and> n \<noteq> [] \<and> encodeURIComponent n = Ok g) \<longleftrightarrow> normal_form g"
proof
  assume "\<exists>n. decodeNodeId g = Ok n \<and> n \<noteq> [] \<and> encodeURIComponent n = Ok g"
  then obtain n where dn: "decodeNodeId g = Ok n" and en: "encodeURIComponent n = Ok g" by blast
  from decode_encode [OF en] dn have "replace_all ''%3A'' '':'' n = n"
    by (simp add: decodeNodeId_def)
  with en show "normal_form g" by (rule encoding_is_normal_form)
next
  assume "normal_form g"
  from normal_form_encodes [OF this] obtain d where d: "encodeURIComponent d = Ok g"
    "replace_all ''%3A'' '':'' d = d" by blast
  from decode_encode [OF d(1)] d(2) have "decodeNodeId g = Ok d" by (simp add: decodeNodeId_def)
  moreover have "d \<noteq> []" using d(1) assms by auto
  ultimately show "\<exists>n. decodeNodeId g = Ok n \<and> n \<noteq> [] \<and> encodeURIComponent n = Ok g"
    using d(1) by blast
qed

lemma locator_extract:
  assumes "node_id_match (pre @ ''node-id='') = None"
    and "g \<noteq> []" and "CHR ''&'' \<notin> set g" and "post = [] \<or> hd post = CHR ''&''"
  shows "extractNodeId (pre @ ''node-id='' @ g @ post)
           = (case decodeNodeId g of Ok n \<Rightarrow> Ok (Some n) | URIError \<Rightarrow> URIError | Beyond \<Rightarrow> Beyond)"
proof -
  have m: "node_id_match (pre @ ''node-id='' @ g @ post) = Some g"
    using node_id_match_found [OF assms] .
  have "CHR ''n'' \<in> set (pre @ ''node-id='' @ g @ post)" by simp
  then have "\<not> looks_like_node_id (pre @ ''node-id='' @ g @ post)"
    using node_id_chars by blast
  with m show ?thesis by (simp add: extractNodeId_def)
qed

text \<open>
  Claim C7 as stated fails at locators the parser accepts. From \<^verbatim>\<open>node-id=1%3a2\<close> the
  node id is 1:2 and its re-encoding is \<^verbatim>\<open>1%3A2\<close>; from \<^verbatim>\<open>node-id=1%2D2\<close> the node
  id is 1-2 and its re-encoding is \<^verbatim>\<open>1-2\<close>; from \<^verbatim>\<open>node-id=1%253A2\<close> the node id
  is 1:2, re-encoded \<^verbatim>\<open>1%3A2\<close>. None recovers the encoded id of the locator.
\<close>

theorem node_id_round_trip_fails_example:
  "extractNodeId ''https://www.figma.com/file/abc123def456/My-Design?node-id=1%3a2&mode=dev''
     = Ok (Some ''1:2'')
   \<and> createFigmaUrl ''abc123def456'' (Some ''1:2'') (Some ''My-Design'')
     = Ok ''https://www.figma.com/file/abc123def456/My-Design?node-id=1%3A2''
   \<and> ''1%3A2'' \<noteq> ''1%3a2''
   \<and> extractNodeId ''https://www.figma.com/file/abc123def456/My-Design?node-id=1%2D2''
     = Ok (Some ''1-2'')
   \<and> createFigmaUrl ''abc123def456'' (Some ''1-2'') (Some ''My-Design'')
     = Ok ''https://www.figma.com/file/abc123def456/My-Design?node-id=1-2''
   \<and> extractNodeId ''https://www.figma.com/file/abc123def456/My-Design?node-id=1%253A2''
     = Ok (Some ''1:2'')
   \<and> ''1%3A2'' \<noteq> ''1%253A2''"
  by (simp add: extractNodeId_def createFigmaUrl_def decodeNodeId_def truthy_def
      looks_like_node_id_def digits_sep_digits_def is_digit_def is_ascii_def unreserved_def
      hex_val_def hex_digit_def char_of_def bit_0)

text \<open>
  Claim C7, amended. Take a locator that carries an encoded node id as its \<^verbatim>\<open>node-id\<close>
  parameter: any text in which the pattern does not match earlier, then \<^verbatim>\<open>node-id=\<close>,
  the encoded id (not empty, without \<^verbatim>\<open>&\<close>, its escapes within ASCII), and nothing or
  further parameters. Extracting the node id and creating a Figma URL from it recovers the
  locator's encoded id exactly when that id is in the encoder's normal form: unreserved
  characters as themselves, every other character as a percent escape with uppercase
  digits, and no escaped percent sign before \<^verbatim>\<open>3A\<close>.
\<close>

theorem node_id_round_trip:
  assumes "node_id_match (pre @ ''node-id='') = None"
    and "g \<noteq> []" and "CHR ''&'' \<notin> set g" and "post = [] \<or> hd post = CHR ''&''"
    and "decodeURIComponent g \<noteq> Beyond"
  shows "(\<exists>n. extractNodeId (pre @ ''node-id='' @ g @ post) = Ok (Some n)
              \<and> createFigmaUrl fileId (Some n) fileName
                  = Ok (''https://www.figma.com/file/'' @ fileId @ ''/''
                        @ (case truthy fileName of None \<Rightarrow> ''design'' | Some x \<Rightarrow> x)
                        @ ''?node-id='' @ g))
         \<longleftrightarrow> normal_form g"
proof -
  let ?base = "''https://www.figma.com/file/'' @ fileId @ ''/''
                 @ (case truthy fileName of None \<Rightarrow> ''design'' | Some x \<Rightarrow> x)"
  have url: "createFigmaUrl fileId (Some n) fileName = Ok (?base @ ''?node-id='' @ g)
               \<longleftrightarrow> n \<noteq> [] \<and> encodeURIComponent n = Ok g" for n
    by (cases "encodeURIComponent n") (auto simp: createFigmaUrl_def truthy_def Let_def)
  have "(\<exists>n. extractNodeId (pre @ ''node-id='' @ g @ post) = Ok (Some n)
              \<and> createFigmaUrl fileId (Some n) fileName = Ok (?base @ ''?node-id='' @ g))
        \<longleftrightarrow> (\<exists>n. decodeNodeId g = Ok n \<and> n \<noteq> [] \<and> encodeURIComponent n = Ok g)"
    unfolding locator_extract [OF assms(1-4)] url
    by (cases "decodeNodeId g") auto
  with round_trip_iff_normal_form [OF assms(2)] show ?thesis by simp
qed

theorem node_id_round_trip_witness:
  "node_id_match (''https://www.figma.com/file/abc123def456/My-Design?type=design&'' @ ''node-id='') = None
   \<and> decodeURIComponent ''1%3A2'' \<noteq> Beyond \<and> decodeURIComponent ''1%3a2'' \<noteq> Beyond
   \<and> normal_form ''1%3A2'' \<and> \<not> normal_form ''1%3a2''
   \<and> (\<exists>n. extractNodeId (''https://www.figma.com/file/abc123def456/My-Design?type=design&''
                @ ''node-id='' @ ''1%3A2'' @ ''&mode=dev'') = Ok (Some n)
          \<and> createFigmaUrl ''abc123def456'' (Some n) (Some ''My-Design'')
              = Ok (''https://www.figma.com/file/'' @ ''abc123def456'' @ ''/''
                    @ (case truthy (Some ''My-Design'') of None \<Rightarrow> ''design'' | Some x \<Rightarrow> x)
                    @ ''?node-id='' @ ''1%3A2''))
   \<and> \<not> (\<exists>n. extractNodeId (''https://www.figma.com/file/abc123def456/My-Design?type=design&''
                @ ''node-id='' @ ''1%3a2'' @ ''&mode=dev'') = Ok (Some n)
          \<and> createFigmaUrl ''abc123def456'' (Some n) (Some ''My-Design'')
              = Ok (''https://www.figma.com/file/'' @ ''abc123def456'' @ ''/''
                    @ (case truthy (Some ''My-Design'') of None \<Rightarrow> ''design'' | Some x \<Rightarrow> x)
                    @ ''?node-id='' @ ''1%3a2''))"
proof -
  have a: "node_id_match (''https://www.figma.com/file/abc123def456/My-Design?type=design&'' @ ''node-id='') = None"
    by simp
  have p: "''&mode=dev'' = [] \<or> hd ''&mode=dev'' = CHR ''&''" by simp
  have d1: "decodeURIComponent ''1%3A2'' \<noteq> Beyond"
    by (simp add: hex_val_def is_ascii_def)
  have d2: "decodeURIComponent ''1%3a2'' \<noteq> Beyond"
    by (simp add: hex_val_def is_ascii_def)
  have n1: "normal_form ''1%3A2''"
    by (simp add: hex_val_def hex_digit_def is_ascii_def unreserved_def char_of_def bit_0)
  have n2: "\<not> normal_form ''1%3a2''"
    by (simp add: hex_val_def hex_digit_def is_ascii_def unreserved_def char_of_def bit_0)
  have g1: "''1%3A2'' \<noteq> [] \<and> CHR ''&'' \<notin> set ''1%3A2''" by simp
  have g2: "''1%3a2'' \<noteq> [] \<and> CHR ''&'' \<notin> set ''1%3a2''" by simp
  note t1 = node_id_round_trip [OF a conjunct1 [OF g1] conjunct2 [OF g1] p d1,
      of "''abc123def456''" "Some ''My-Design''"]
  note t2 = node_id_round_trip [OF a conjunct1 [OF g2] conjunct2 [OF g2] p d2,
      of "''abc123def456''" "Some ''My-Design''"]
  from t1 n1 have r1: "\<exists>n. extractNodeId (''https://www.figma.com/file/abc123def456/My-Design?type=design&''
                @ ''node-id='' @ ''1%3A2'' @ ''&mode=dev'') = Ok (Some n)
          \<and> createFigmaUrl ''abc123def456'' (Some n) (Some ''My-Design'')
              = Ok (''https://www.figma.com/file/'' @ ''abc123def456'' @ ''/''
                    @ (case truthy (Some ''My-Design'') of None \<Rightarrow> ''design'' | Some x \<Rightarrow> x)
                    @ ''?node-id='' @ ''1%3A2'')"
    by blast
  from t2 n2 have r2: "\<not> (\<exists>n. extractNodeId (''https://www.figma.com/file/abc123def456/My-Design?type=design&''
                @ ''node-id='' @ ''1%3a2'' @ ''&mode=dev'') = Ok (Some n)
          \<and> createFigmaUrl ''abc123def456'' (Some n) (Some ''My-Design'')
              = Ok (''https://www.figma.com/file/'' @ ''abc123def456'' @ ''/''
                    @ (case truthy (Some ''My-Design'') of None \<Rightarrow> ''design'' | Some x \<Rightarrow> x)
                    @ ''?node-id='' @ ''1%3a2''))"
    by blast
  from a d1 d2 n1 n2 r1 r2 show ?thesis by blast
qed

end
